theory Spec2Isabelle
  imports Main
begin

section \<open>JavaScript values\<close>

text \<open>
  The streaming client of the LLM council front end: \<^verbatim>\<open>sendMessageStream\<close> of the API
  client (the stream decoder) and \<^verbatim>\<open>handleSendMessage\<close>, \<^verbatim>\<open>handleStopGeneration\<close> and
  \<^verbatim>\<open>handleRegenerateMessage\<close> of \<^verbatim>\<open>App.jsx\<close> (the event handlers and the conversation).

  A JavaScript string is a list of UTF-16 code units, each a natural number; \<open>str\<close>
  turns an ASCII literal into one. A value read from the stream is a JSON value. The
  text of a number is kept as it was written. \<open>undefined\<close> is \<open>None\<close> of
  \<open>json option\<close>.
\<close>

type_synonym jstring = "nat list"

definition str :: "string \<Rightarrow> jstring" where
  "str s = map of_char s"

datatype json = JNull | JBool bool | JNum jstring | JStr jstring
  | JArr "json list" | JObj "(jstring \<times> json) list"

type_synonym jsval = "json option"

text \<open>
  \<^verbatim>\<open>v.name\<close> for a value \<open>v\<close> that is not \<^verbatim>\<open>null\<close>: an object gives the value of its
  last member of that name (a later duplicate overrides an earlier one in
  \<^verbatim>\<open>JSON.parse\<close>), anything else \<^verbatim>\<open>undefined\<close>. The names read by the client
  (\<^verbatim>\<open>type\<close>, \<^verbatim>\<open>data\<close>, \<^verbatim>\<open>models\<close>, \<^verbatim>\<open>metadata\<close>, \<^verbatim>\<open>message\<close>) are on no prototype.
\<close>

fun js_get :: "json \<Rightarrow> jstring \<Rightarrow> jsval" where
  "js_get (JObj ms) name = map_of (rev ms) name"
| "js_get v name = None"

text \<open>
  Truthiness, for \<^verbatim>\<open>event.models || []\<close>. A number is taken as zero when its mantissa
  has no digit other than 0 (a literal so small that it rounds to zero as a double is
  not told apart).
\<close>

definition is_zero_number :: "jstring \<Rightarrow> bool" where
  "is_zero_number n = list_all (\<lambda>c. c < 49 \<or> 57 < c) (takeWhile (\<lambda>c. c \<noteq> 101 \<and> c \<noteq> 69) n)"

fun truthy :: "jsval \<Rightarrow> bool" where
  "truthy None = False"
| "truthy (Some JNull) = False"
| "truthy (Some (JBool b)) = b"
| "truthy (Some (JNum n)) = (\<not> is_zero_number n)"
| "truthy (Some (JStr s)) = (s \<noteq> [])"
| "truthy (Some v) = True"

section \<open>JSON.parse\<close>

text \<open>
  \<^verbatim>\<open>JSON.parse\<close> is the platform's; it is modelled by a lexer and a pushdown parser for
  the JSON grammar. \<open>None\<close> is the \<^verbatim>\<open>SyntaxError\<close>.
\<close>

datatype token = TLBrace | TRBrace | TLBrack | TRBrack | TColon | TComma | TAtom json

definition is_ws :: "nat \<Rightarrow> bool" where
  "is_ws c = (c = 32 \<or> c = 9 \<or> c = 10 \<or> c = 13)"

definition is_digit :: "nat \<Rightarrow> bool" where
  "is_digit c = (48 \<le> c \<and> c \<le> 57)"

definition hexval :: "nat \<Rightarrow> nat option" where
  "hexval c = (if 48 \<le> c \<and> c \<le> 57 then Some (c - 48)
     else if 97 \<le> c \<and> c \<le> 102 then Some (c - 87)
     else if 65 \<le> c \<and> c \<le> 70 then Some (c - 55)
     else None)"

definition unescape :: "nat \<Rightarrow> nat option" where
  "unescape c = (if c = 34 \<or> c = 92 \<or> c = 47 then Some c
     else if c = 98 then Some 8
     else if c = 102 then Some 12
     else if c = 110 then Some 10
     else if c = 114 then Some 13
     else if c = 116 then Some 9
     else None)"

text \<open>
  A string literal, read after its opening quote: the decoded string and the text after
  the closing quote. \<open>SEsc\<close> is the state after a backslash, \<open>SHex n v\<close> the state
  with \<open>n\<close> hexadecimal digits of a \<^verbatim>\<open>\u\<close> escape still to read.
\<close>

datatype sstate = SNorm | SEsc | SHex nat nat

fun lex_string :: "sstate \<Rightarrow> jstring \<Rightarrow> jstring \<Rightarrow> (jstring \<times> jstring) option" where
  "lex_string st acc [] = None"
| "lex_string SNorm acc (c # cs) =
     (if c = 34 then Some (rev acc, cs)
      else if c = 92 then lex_string SEsc acc cs
      else if c < 32 then None
      else lex_string SNorm (c # acc) cs)"
| "lex_string SEsc acc (c # cs) =
     (if c = 117 then lex_string (SHex 4 0) acc cs
      else (case unescape c of None \<Rightarrow> None
            | Some u \<Rightarrow> lex_string SNorm (u # acc) cs))"
| "lex_string (SHex n v) acc (c # cs) =
     (case hexval c of None \<Rightarrow> None
      | Some h \<Rightarrow> if n \<le> 1 then lex_string SNorm ((16 * v + h) # acc) cs
                  else lex_string (SHex (n - 1) (16 * v + h)) acc cs)"

text \<open>The grammar of a number, as an automaton over its characters.\<close>

datatype nstate = NStart | NMinus | NZero | NInt | NDot | NFrac | NE | NESign | NExp

fun num_step :: "nstate \<Rightarrow> nat \<Rightarrow> nstate option" where
  "num_step NStart c = (if c = 45 then Some NMinus else if c = 48 then Some NZero
      else if is_digit c then Some NInt else None)"
| "num_step NMinus c = (if c = 48 then Some NZero else if is_digit c then Some NInt else None)"
| "num_step NZero c = (if c = 46 then Some NDot else if c = 101 \<or> c = 69 then Some NE else None)"
| "num_step NInt c = (if is_digit c then Some NInt else if c = 46 then Some NDot
      else if c = 101 \<or> c = 69 then Some NE else None)"
| "num_step NDot c = (if is_digit c then Some NFrac else None)"
| "num_step NFrac c = (if is_digit c then Some NFrac
      else if c = 101 \<or> c = 69 then Some NE else None)"
| "num_step NE c = (if c = 43 \<or> c = 45 then Some NESign
      else if is_digit c then Some NExp else None)"
| "num_step NESign c = (if is_digit c then Some NExp else None)"
| "num_step NExp c = (if is_digit c then Some NExp else None)"

fun number_ok :: "nstate \<Rightarrow> jstring \<Rightarrow> bool" where
  "number_ok st [] = (st = NZero \<or> st = NInt \<or> st = NFrac \<or> st = NExp)"
| "number_ok st (c # cs) =
     (case num_step st c of None \<Rightarrow> False | Some st' \<Rightarrow> number_ok st' cs)"

definition is_num_char :: "nat \<Rightarrow> bool" where
  "is_num_char c = (is_digit c \<or> c = 45 \<or> c = 43 \<or> c = 46 \<or> c = 101 \<or> c = 69)"

definition is_lower :: "nat \<Rightarrow> bool" where
  "is_lower c = (97 \<le> c \<and> c \<le> 122)"

definition word_atom :: "jstring \<Rightarrow> json option" where
  "word_atom w = (if w = str ''true'' then Some (JBool True)
     else if w = str ''false'' then Some (JBool False)
     else if w = str ''null'' then Some JNull else None)"

text \<open>
  The lexer. A number or a word is the longest run of its characters; a run that is no
  number (no word) is an error, as it is for \<^verbatim>\<open>JSON.parse\<close>, where no token may
  follow a number or a word without a separator.
\<close>

function tokenize :: "jstring \<Rightarrow> token list option" where
  "tokenize [] = Some []"
| "tokenize (c # cs) =
     (if is_ws c then tokenize cs
      else if c = 123 then map_option (Cons TLBrace) (tokenize cs)
      else if c = 125 then map_option (Cons TRBrace) (tokenize cs)
      else if c = 91 then map_option (Cons TLBrack) (tokenize cs)
      else if c = 93 then map_option (Cons TRBrack) (tokenize cs)
      else if c = 58 then map_option (Cons TColon) (tokenize cs)
      else if c = 44 then map_option (Cons TComma) (tokenize cs)
      else if c = 34 then
        (case lex_string SNorm [] cs of None \<Rightarrow> None
         | Some (s, rest) \<Rightarrow> map_option (Cons (TAtom (JStr s))) (tokenize rest))
      else if is_num_char c then
        (if number_ok NStart (c # takeWhile is_num_char cs)
         then map_option (Cons (TAtom (JNum (c # takeWhile is_num_char cs))))
                (tokenize (dropWhile is_num_char cs))
         else None)
      else if is_lower c then
        (case word_atom (c # takeWhile is_lower cs) of None \<Rightarrow> None
         | Some v \<Rightarrow> map_option (Cons (TAtom v)) (tokenize (dropWhile is_lower cs)))
      else None)"
  by pat_completeness auto
termination
proof -
  have shorter: "length rest < length cs"
    if "lex_string st acc cs = Some (s, rest)" for st acc cs s rest
    using that
    by (induction st acc cs rule: lex_string.induct)
       (auto split: if_splits option.splits)
  show ?thesis
    by (relation "measure length")
       (auto simp: less_Suc_eq_le length_dropWhile_le intro: less_imp_le dest!: shorter)
qed

text \<open>
  The parser reads one token at a time. Its state says what may come next; the stack
  holds the arrays and objects that are open: the elements of an array so far (last
  first), the members of an object so far (last first) with the name of the member
  whose value is being read.
\<close>

datatype frame = FArr "json list" | FObj "(jstring \<times> json) list" jstring

datatype pstate = PValue | PValueOrEnd | PKeyOrEnd | PKey "(jstring \<times> json) list"
  | PColon "(jstring \<times> json) list" jstring | PAfter json

fun begin_value :: "frame list \<Rightarrow> token \<Rightarrow> (pstate \<times> frame list) option" where
  "begin_value fs (TAtom v) = Some (PAfter v, fs)"
| "begin_value fs TLBrack = Some (PValueOrEnd, fs)"
| "begin_value fs TLBrace = Some (PKeyOrEnd, fs)"
| "begin_value fs t = None"

fun parse_step :: "pstate \<Rightarrow> frame list \<Rightarrow> token \<Rightarrow> (pstate \<times> frame list) option" where
  "parse_step PValue fs t = begin_value fs t"
| "parse_step PValueOrEnd fs TRBrack = Some (PAfter (JArr []), fs)"
| "parse_step PValueOrEnd fs t = begin_value (FArr [] # fs) t"
| "parse_step PKeyOrEnd fs TRBrace = Some (PAfter (JObj []), fs)"
| "parse_step PKeyOrEnd fs (TAtom (JStr k)) = Some (PColon [] k, fs)"
| "parse_step PKeyOrEnd fs t = None"
| "parse_step (PKey ms) fs (TAtom (JStr k)) = Some (PColon ms k, fs)"
| "parse_step (PKey ms) fs t = None"
| "parse_step (PColon ms k) fs TColon = Some (PValue, FObj ms k # fs)"
| "parse_step (PColon ms k) fs t = None"
| "parse_step (PAfter v) (FArr es # fs) TComma = Some (PValue, FArr (v # es) # fs)"
| "parse_step (PAfter v) (FArr es # fs) TRBrack = Some (PAfter (JArr (rev (v # es))), fs)"
| "parse_step (PAfter v) (FObj ms k # fs) TComma = Some (PKey ((k, v) # ms), fs)"
| "parse_step (PAfter v) (FObj ms k # fs) TRBrace =
     Some (PAfter (JObj (rev ((k, v) # ms))), fs)"
| "parse_step (PAfter v) fs t = None"

fun parse_tokens :: "pstate \<Rightarrow> frame list \<Rightarrow> token list \<Rightarrow> json option" where
  "parse_tokens st fs [] = (case (st, fs) of (PAfter v, []) \<Rightarrow> Some v | _ \<Rightarrow> None)"
| "parse_tokens st fs (t # ts) =
     (case parse_step st fs t of None \<Rightarrow> None
      | Some (st', fs') \<Rightarrow> parse_tokens st' fs' ts)"

definition JSON_parse :: "jstring \<Rightarrow> json option" where
  "JSON_parse s = (case tokenize s of None \<Rightarrow> None | Some ts \<Rightarrow> parse_tokens PValue [] ts)"

section \<open>The stream decoder: sendMessageStream\<close>

text \<open>
  \<^verbatim>\<open>
  const response = await fetch(..., { method: "POST", ..., signal: signal });
  if (!response.ok) { throw new Error("Failed to send message"); }
  const reader = response.body.getReader();
  const decoder = new TextDecoder();
  try {
    while (true) {
      const { done, value } = await reader.read();
      if (done) break;
      const chunk = decoder.decode(value);
      const lines = chunk.split("\n");
      for (const line of lines) {
        if (line.startsWith("data: ")) {
          const data = line.slice(6);
          try {
            const event = JSON.parse(data);
            onEvent(event.type, event);
          } catch (e) { console.error("Failed to parse SSE event:", e); }
        }
      }
    }
  } catch (e) {
    if (e.name === "AbortError") {
      onEvent("aborted", { message: "Stream aborted by user" });
    } else { throw e; }
  }
  \<close>
  What the network does during one call is the input: \<^verbatim>\<open>fetch\<close> throws, or answers
  with a status (\<^verbatim>\<open>response.ok\<close>) and a body whose successive \<^verbatim>\<open>reader.read()\<close>
  calls give a chunk of text or throw; after the last entry of the list the read
  reports \<^verbatim>\<open>done\<close>. An error is known by its \<^verbatim>\<open>name\<close>.

  The result is what the function does to its caller: the calls of \<^verbatim>\<open>onEvent\<close> and of
  \<^verbatim>\<open>console.error\<close>, in order, and the error it throws, if any.
\<close>

datatype js_error = AbortError | TypeError | Error

datatype read = Chunk jstring | ReadError js_error

datatype fetch_result = FetchError js_error | Response bool "read list"

datatype callback = OnEvent jsval json | ParseFailed

fun split_nl :: "jstring \<Rightarrow> jstring list" where
  "split_nl [] = [[]]"
| "split_nl (c # cs) =
     (if c = 10 then [] # split_nl cs
      else (case split_nl cs of [] \<Rightarrow> [[c]] | line # lines \<Rightarrow> (c # line) # lines))"

definition startsWith :: "jstring \<Rightarrow> jstring \<Rightarrow> bool" where
  "startsWith line p = (take (length p) line = p)"

text \<open>
  One line. \<^verbatim>\<open>event.type\<close> throws a \<^verbatim>\<open>TypeError\<close> when the payload is \<^verbatim>\<open>null\<close>; the
  inner \<^verbatim>\<open>catch\<close> takes it as it takes the \<^verbatim>\<open>SyntaxError\<close>.
\<close>

definition process_line :: "jstring \<Rightarrow> callback list" where
  "process_line line =
     (if startsWith line (str ''data: '') then
        (case JSON_parse (drop 6 line) of
           None \<Rightarrow> [ParseFailed]
         | Some JNull \<Rightarrow> [ParseFailed]
         | Some event \<Rightarrow> [OnEvent (js_get event (str ''type'')) event])
      else [])"

definition decode_chunk :: "jstring \<Rightarrow> callback list" where
  "decode_chunk chunk = concat (map process_line (split_nl chunk))"

definition aborted_event :: json where
  "aborted_event = JObj [(str ''message'', JStr (str ''Stream aborted by user''))]"

fun read_loop :: "read list \<Rightarrow> callback list \<times> js_error option" where
  "read_loop [] = ([], None)"
| "read_loop (Chunk chunk # rs) =
     (case read_loop rs of (cbs, thrown) \<Rightarrow> (decode_chunk chunk @ cbs, thrown))"
| "read_loop (ReadError e # rs) =
     (if e = AbortError then ([OnEvent (Some (JStr (str ''aborted''))) aborted_event], None)
      else ([], Some e))"

fun sendMessageStream :: "fetch_result \<Rightarrow> callback list \<times> js_error option" where
  "sendMessageStream (FetchError e) = ([], Some e)"
| "sendMessageStream (Response ok rs) = (if \<not> ok then ([], Some Error) else read_loop rs)"

section \<open>The conversation held by App\<close>

text \<open>
  A message is an object with the fields the client reads and writes; a field that is
  absent is \<^verbatim>\<open>undefined\<close>. \<^verbatim>\<open>loading\<close> is absent or the object of the four flags (and,
  once \<^verbatim>\<open>stage1_start\<close> has been seen, \<^verbatim>\<open>stage1Models\<close>). The fields of \<^verbatim>\<open>loading\<close> are
  prefixed here, since \<^verbatim>\<open>stage1\<close> to \<^verbatim>\<open>stage3\<close> name fields of the message too.
\<close>

record loading_flags =
  loading_stage1 :: bool
  loading_stage2 :: bool
  loading_stage3 :: bool
  loading_simple :: bool
  loading_stage1Models :: jsval

record message =
  role :: jsval
  content :: jsval
  stage1 :: jsval
  stage2 :: jsval
  stage3 :: jsval
  simpleResponse :: jsval
  metadata :: jsval
  loading :: "loading_flags option"

record conversation =
  conversation_id :: jsval
  messages :: "message list"

text \<open>
  The two messages \<^verbatim>\<open>handleSendMessage\<close> appends before the stream starts:
  \<^verbatim>\<open>{ role: "user", content }\<close> and the partial assistant message.
\<close>

definition userMessage :: "jsval \<Rightarrow> message" where
  "userMessage c = \<lparr>role = Some (JStr (str ''user'')), content = c, stage1 = None,
     stage2 = None, stage3 = None, simpleResponse = None, metadata = None, loading = None\<rparr>"

definition assistantMessage :: message where
  "assistantMessage = \<lparr>role = Some (JStr (str ''assistant'')), content = None,
     stage1 = Some JNull, stage2 = Some JNull, stage3 = Some JNull,
     simpleResponse = Some JNull, metadata = Some JNull,
     loading = Some \<lparr>loading_stage1 = False, loading_stage2 = False,
       loading_stage3 = False, loading_simple = False, loading_stage1Models = None\<rparr>\<rparr>"

text \<open>
  The state of the component: the two state cells and the ref the handlers use, and
  what the handlers did to the outside (toasts, console lines, reloads of the
  conversation list, the cancel request), oldest first. The texts of the toasts are not
  modelled.
\<close>

datatype toast = ToastSimpleMode | ToastCompleted | ToastStreamError jsval
  | ToastSendFailed | ToastStopped | ToastRegenerating | ToastNoUserMessage

datatype effect = LoadConversations | ShowToast toast | ConsoleLogUnknown jsval
  | ConsoleErrorStream jsval | ConsoleErrorParse | ConsoleErrorSend js_error
  | Abort | CancelRequest jstring

datatype controller = AbortController

record app =
  currentConversationId :: "jstring option"
  currentConversation :: "conversation option"
  isLoading :: bool
  abortControllerRef :: "controller option"
  effects :: "effect list"

definition perform :: "effect list \<Rightarrow> app \<Rightarrow> app" where
  "perform es a = a\<lparr>effects := effects a @ es\<rparr>"

text \<open>
  \<^verbatim>\<open>setCurrentConversation(updater)\<close>. An updater that throws does so inside React, when the
  state is computed: the component fails to render, and no \<^verbatim>\<open>catch\<close> of the handlers
  sees the error. \<open>Inl\<close> is that failure; the handlers stop there.
\<close>

definition setCurrentConversation ::
  "(conversation option \<Rightarrow> js_error + conversation option) \<Rightarrow> app \<Rightarrow> js_error + app" where
  "setCurrentConversation updater a =
     (case updater (currentConversation a) of Inl e \<Rightarrow> Inl e
      | Inr c \<Rightarrow> Inr (a\<lparr>currentConversation := c\<rparr>))"

section \<open>The event handlers of handleSendMessage\<close>

text \<open>
  Every updater of the \<^verbatim>\<open>switch\<close> has the shape
  \<^verbatim>\<open>
  (prev) => {
    const messages = [...prev.messages];
    const lastMsg = messages[messages.length - 1];
    ... assignments to lastMsg ...
    return { ...prev, messages };
  }
  \<close>
  \<open>update_lastMsg\<close> is that shape, with the assignments as its argument.
  \<^verbatim>\<open>prev.messages\<close> throws when \<^verbatim>\<open>prev\<close> is \<^verbatim>\<open>null\<close>; with no message \<^verbatim>\<open>lastMsg\<close> is
  \<^verbatim>\<open>undefined\<close>, and the first assignment of every case throws. \<^verbatim>\<open>lastMsg\<close> is the
  object the array holds, so the assignments change the last message of the list.
\<close>

definition update_lastMsg ::
  "(message \<Rightarrow> js_error + message) \<Rightarrow> conversation option \<Rightarrow> js_error + conversation option" where
  "update_lastMsg assign prev =
     (case prev of None \<Rightarrow> Inl TypeError
      | Some c \<Rightarrow>
          (case messages c of [] \<Rightarrow> Inl TypeError
           | m # ms \<Rightarrow>
               (case assign (last (m # ms)) of Inl e \<Rightarrow> Inl e
                | Inr lastMsg \<Rightarrow> Inr (Some (c\<lparr>messages := butlast (m # ms) @ [lastMsg]\<rparr>)))))"

text \<open>
  An assignment \<^verbatim>\<open>lastMsg.loading.flag = ...\<close>: it throws when the message has no
  \<^verbatim>\<open>loading\<close>.
\<close>

definition set_loading :: "(loading_flags \<Rightarrow> loading_flags) \<Rightarrow> message \<Rightarrow> js_error + message" where
  "set_loading f m =
     (case loading m of None \<Rightarrow> Inl TypeError | Some l \<Rightarrow> Inr (m\<lparr>loading := Some (f l)\<rparr>))"

definition simple_mode_start :: "message \<Rightarrow> js_error + message" where
  "simple_mode_start lastMsg = set_loading (\<lambda>l. l\<lparr>loading_simple := True\<rparr>) lastMsg"

definition simple_mode_complete :: "json \<Rightarrow> message \<Rightarrow> js_error + message" where
  "simple_mode_complete event lastMsg =
     set_loading (\<lambda>l. l\<lparr>loading_simple := False\<rparr>)
       (lastMsg\<lparr>simpleResponse := js_get event (str ''data'')\<rparr>)"

definition stage1_start :: "json \<Rightarrow> message \<Rightarrow> js_error + message" where
  "stage1_start event lastMsg =
     set_loading (\<lambda>l. l\<lparr>loading_stage1 := True,
         loading_stage1Models :=
           (if truthy (js_get event (str ''models'')) then js_get event (str ''models'')
            else Some (JArr []))\<rparr>)
       lastMsg"

definition stage1_complete :: "json \<Rightarrow> message \<Rightarrow> js_error + message" where
  "stage1_complete event lastMsg =
     set_loading (\<lambda>l. l\<lparr>loading_stage1 := False\<rparr>)
       (lastMsg\<lparr>stage1 := js_get event (str ''data'')\<rparr>)"

definition stage2_start :: "message \<Rightarrow> js_error + message" where
  "stage2_start lastMsg = set_loading (\<lambda>l. l\<lparr>loading_stage2 := True\<rparr>) lastMsg"

definition stage2_complete :: "json \<Rightarrow> message \<Rightarrow> js_error + message" where
  "stage2_complete event lastMsg =
     set_loading (\<lambda>l. l\<lparr>loading_stage2 := False\<rparr>)
       (lastMsg\<lparr>stage2 := js_get event (str ''data''),
          metadata := js_get event (str ''metadata'')\<rparr>)"

definition stage3_start :: "message \<Rightarrow> js_error + message" where
  "stage3_start lastMsg = set_loading (\<lambda>l. l\<lparr>loading_stage3 := True\<rparr>) lastMsg"

definition stage3_complete :: "json \<Rightarrow> message \<Rightarrow> js_error + message" where
  "stage3_complete event lastMsg =
     set_loading (\<lambda>l. l\<lparr>loading_stage3 := False\<rparr>)
       (lastMsg\<lparr>stage3 := js_get event (str ''data'')\<rparr>)"

text \<open>
  \<^verbatim>\<open>aborted\<close> and \<^verbatim>\<open>cancelled\<close> test \<^verbatim>\<open>if (lastMsg.loading)\<close> first. \<^verbatim>\<open>aborted\<close> clears
  \<^verbatim>\<open>stage1\<close>, \<^verbatim>\<open>stage2\<close>, \<^verbatim>\<open>stage3\<close> and \<^verbatim>\<open>simple\<close>; \<^verbatim>\<open>cancelled\<close> clears \<^verbatim>\<open>stage1\<close>, \<^verbatim>\<open>stage2\<close>
  and \<^verbatim>\<open>stage3\<close>.
\<close>

definition aborted :: "message \<Rightarrow> js_error + message" where
  "aborted lastMsg =
     (if loading lastMsg = None then Inr lastMsg
      else set_loading (\<lambda>l. l\<lparr>loading_stage1 := False, loading_stage2 := False,
             loading_stage3 := False, loading_simple := False\<rparr>) lastMsg)"

definition cancelled :: "message \<Rightarrow> js_error + message" where
  "cancelled lastMsg =
     (if loading lastMsg = None then Inr lastMsg
      else set_loading (\<lambda>l. l\<lparr>loading_stage1 := False, loading_stage2 := False,
             loading_stage3 := False\<rparr>) lastMsg)"

text \<open>
  The \<^verbatim>\<open>switch (eventType)\<close>: the case a value selects. Only a string equal to one of
  the thirteen labels selects a case; everything else (another string, \<^verbatim>\<open>undefined\<close>,
  a value that is no string) goes to \<^verbatim>\<open>default\<close>.
\<close>

datatype event_case = SimpleModeStart | SimpleModeComplete | Stage1Start | Stage1Complete
  | Stage2Start | Stage2Complete | Stage3Start | Stage3Complete | TitleComplete
  | Complete | ErrorEvent | Aborted | Cancelled | Default

definition switch_case :: "jsval \<Rightarrow> event_case" where
  "switch_case eventType =
     (if eventType = Some (JStr (str ''simple_mode_start'')) then SimpleModeStart
      else if eventType = Some (JStr (str ''simple_mode_complete'')) then SimpleModeComplete
      else if eventType = Some (JStr (str ''stage1_start'')) then Stage1Start
      else if eventType = Some (JStr (str ''stage1_complete'')) then Stage1Complete
      else if eventType = Some (JStr (str ''stage2_start'')) then Stage2Start
      else if eventType = Some (JStr (str ''stage2_complete'')) then Stage2Complete
      else if eventType = Some (JStr (str ''stage3_start'')) then Stage3Start
      else if eventType = Some (JStr (str ''stage3_complete'')) then Stage3Complete
      else if eventType = Some (JStr (str ''title_complete'')) then TitleComplete
      else if eventType = Some (JStr (str ''complete'')) then Complete
      else if eventType = Some (JStr (str ''error'')) then ErrorEvent
      else if eventType = Some (JStr (str ''aborted'')) then Aborted
      else if eventType = Some (JStr (str ''cancelled'')) then Cancelled
      else Default)"

text \<open>
  The callback \<^verbatim>\<open>(eventType, event) => { switch (eventType) { ... } }\<close> that
  \<^verbatim>\<open>handleSendMessage\<close> hands to \<^verbatim>\<open>sendMessageStream\<close>. A turn is finalized by
  \<^verbatim>\<open>setIsLoading(false); abortControllerRef.current = null\<close>.
\<close>

definition finalize :: "app \<Rightarrow> app" where
  "finalize a = a\<lparr>isLoading := False, abortControllerRef := None\<rparr>"

definition onEvent :: "jsval \<Rightarrow> json \<Rightarrow> app \<Rightarrow> js_error + app" where
  "onEvent eventType event a =
     (case switch_case eventType of
        SimpleModeStart \<Rightarrow>
          map_sum id (perform [ShowToast ToastSimpleMode])
            (setCurrentConversation (update_lastMsg simple_mode_start) a)
      | SimpleModeComplete \<Rightarrow>
          setCurrentConversation (update_lastMsg (simple_mode_complete event)) a
      | Stage1Start \<Rightarrow> setCurrentConversation (update_lastMsg (stage1_start event)) a
      | Stage1Complete \<Rightarrow> setCurrentConversation (update_lastMsg (stage1_complete event)) a
      | Stage2Start \<Rightarrow> setCurrentConversation (update_lastMsg stage2_start) a
      | Stage2Complete \<Rightarrow> setCurrentConversation (update_lastMsg (stage2_complete event)) a
      | Stage3Start \<Rightarrow> setCurrentConversation (update_lastMsg stage3_start) a
      | Stage3Complete \<Rightarrow> setCurrentConversation (update_lastMsg (stage3_complete event)) a
      | TitleComplete \<Rightarrow> Inr (perform [LoadConversations] a)
      | Complete \<Rightarrow> Inr (finalize (perform [LoadConversations, ShowToast ToastCompleted] a))
      | ErrorEvent \<Rightarrow>
          Inr (finalize (perform [ConsoleErrorStream (js_get event (str ''message'')),
                 ShowToast (ToastStreamError (js_get event (str ''message'')))] a))
      | Aborted \<Rightarrow> setCurrentConversation (update_lastMsg aborted) a
      | Cancelled \<Rightarrow> map_sum id finalize (setCurrentConversation (update_lastMsg cancelled) a)
      | Default \<Rightarrow> Inr (perform [ConsoleLogUnknown eventType] a))"

text \<open>
  The calls \<^verbatim>\<open>sendMessageStream\<close> makes, applied in order. \<^verbatim>\<open>ParseFailed\<close> is the
  \<^verbatim>\<open>console.error\<close> of the decoder's inner \<^verbatim>\<open>catch\<close>.
\<close>

fun pump :: "callback list \<Rightarrow> app \<Rightarrow> js_error + app" where
  "pump [] a = Inr a"
| "pump (OnEvent eventType event # cbs) a =
     (case onEvent eventType event a of Inl e \<Rightarrow> Inl e | Inr a' \<Rightarrow> pump cbs a')"
| "pump (ParseFailed # cbs) a = pump cbs (perform [ConsoleErrorParse] a)"

section \<open>handleSendMessage, handleStopGeneration, handleRegenerateMessage\<close>

text \<open>
  \<^verbatim>\<open>!currentConversationId\<close>: the id is \<^verbatim>\<open>null\<close> or the empty string.
\<close>

definition no_conversation_id :: "app \<Rightarrow> bool" where
  "no_conversation_id a = (currentConversationId a = None \<or> currentConversationId a = Some [])"

definition append_message :: "message \<Rightarrow> conversation option \<Rightarrow> js_error + conversation option" where
  "append_message m prev =
     (case prev of None \<Rightarrow> Inl TypeError
      | Some c \<Rightarrow> Inr (Some (c\<lparr>messages := messages c @ [m]\<rparr>)))"

text \<open>
  \<^verbatim>\<open>xs.slice(0, e)\<close>: a negative \<open>e\<close> counts from the end, and never below 0.
\<close>

definition slice0 :: "'a list \<Rightarrow> int \<Rightarrow> 'a list" where
  "slice0 xs e = take (nat (if e < 0 then int (length xs) + e else e)) xs"

definition remove_optimistic :: "conversation option \<Rightarrow> js_error + conversation option" where
  "remove_optimistic prev =
     (case prev of None \<Rightarrow> Inl TypeError
      | Some c \<Rightarrow> Inr (Some (c\<lparr>messages := slice0 (messages c) (- 2)\<rparr>)))"

text \<open>
  \<^verbatim>\<open>
  if (!currentConversationId) return;
  abortControllerRef.current = new AbortController();
  setIsLoading(true);
  try {
    setCurrentConversation((prev) => ({ ...prev, messages: [...prev.messages, userMessage] }));
    setCurrentConversation((prev) => ({ ...prev, messages: [...prev.messages, assistantMessage] }));
    await api.sendMessageStream(currentConversationId, content, (eventType, event) => ..., signal);
  } catch (error) {
    if (error.name === "AbortError") { return; }
    console.error("Failed to send message:", error);
    toast.error(...);
    setCurrentConversation((prev) => ({ ...prev, messages: prev.messages.slice(0, -2) }));
    setIsLoading(false);
    abortControllerRef.current = null;
  }
  \<close>
  \<open>net\<close> is what the network does during the call.
\<close>

definition handleSendMessage :: "jsval \<Rightarrow> fetch_result \<Rightarrow> app \<Rightarrow> js_error + app" where
  "handleSendMessage c net a =
     (if no_conversation_id a then Inr a
      else
        (case setCurrentConversation (append_message (userMessage c))
                (a\<lparr>abortControllerRef := Some AbortController, isLoading := True\<rparr>) of
           Inl e \<Rightarrow> Inl e
         | Inr a1 \<Rightarrow>
        (case setCurrentConversation (append_message assistantMessage) a1 of
           Inl e \<Rightarrow> Inl e
         | Inr a2 \<Rightarrow>
        (case sendMessageStream net of (cbs, thrown) \<Rightarrow>
        (case pump cbs a2 of
           Inl e \<Rightarrow> Inl e
         | Inr a3 \<Rightarrow>
        (case thrown of
           None \<Rightarrow> Inr a3
         | Some err \<Rightarrow>
             if err = AbortError then Inr a3
             else map_sum id finalize
                    (setCurrentConversation remove_optimistic
                       (perform [ConsoleErrorSend err, ShowToast ToastSendFailed] a3))))))))"

text \<open>
  \<^verbatim>\<open>
  if (abortControllerRef.current) {
    abortControllerRef.current.abort();
    abortControllerRef.current = null;
    if (currentConversationId) { await api.cancelRequest(currentConversationId); }
    setIsLoading(false);
    toast(...);
  }
  \<close>
  The abort itself reaches the stream as the \<^verbatim>\<open>AbortError\<close> of a read.
\<close>

definition handleStopGeneration :: "app \<Rightarrow> app" where
  "handleStopGeneration a =
     (if abortControllerRef a = None then a
      else
        (perform ([Abort]
            @ (case currentConversationId a of None \<Rightarrow> []
               | Some i \<Rightarrow> if i = [] then [] else [CancelRequest i])
            @ [ShowToast ToastStopped]) a)
        \<lparr>abortControllerRef := None, isLoading := False\<rparr>)"

text \<open>
  \<^verbatim>\<open>
  let userMessageIndex = messageIndex - 1;
  while (userMessageIndex >= 0 && messages[userMessageIndex]?.role !== "user") {
    userMessageIndex--;
  }
  \<close>
  \<open>message_at\<close> is \<^verbatim>\<open>messages[i]\<close> (\<^verbatim>\<open>undefined\<close> out of range), \<open>role_at\<close> is
  \<^verbatim>\<open>messages[i]?.role\<close>.
\<close>

definition message_at :: "message list \<Rightarrow> int \<Rightarrow> message option" where
  "message_at ms i = (if 0 \<le> i \<and> i < int (length ms) then Some (ms ! nat i) else None)"

definition role_at :: "message list \<Rightarrow> int \<Rightarrow> jsval" where
  "role_at ms i = (case message_at ms i of None \<Rightarrow> None | Some m \<Rightarrow> role m)"

function walk_back :: "message list \<Rightarrow> int \<Rightarrow> int" where
  "walk_back ms userMessageIndex =
     (if userMessageIndex \<ge> 0 \<and> role_at ms userMessageIndex \<noteq> Some (JStr (str ''user''))
      then walk_back ms (userMessageIndex - 1)
      else userMessageIndex)"
  by pat_completeness auto
termination
  by (relation "measure (\<lambda>(ms, i). nat (i + 1))") auto

text \<open>
  \<^verbatim>\<open>
  if (!currentConversationId || !currentConversation) return;
  const messages = currentConversation.messages;
  ... the loop above ...
  if (userMessageIndex < 0) { toast.error(...); return; }
  const userContent = messages[userMessageIndex].content;
  setCurrentConversation((prev) => ({ ...prev, messages: prev.messages.slice(0, messageIndex) }));
  toast(...);
  await handleSendMessage(userContent);
  \<close>
\<close>

definition handleRegenerateMessage :: "int \<Rightarrow> fetch_result \<Rightarrow> app \<Rightarrow> js_error + app" where
  "handleRegenerateMessage messageIndex net a =
     (if no_conversation_id a then Inr a
      else case currentConversation a of
        None \<Rightarrow> Inr a
      | Some conv \<Rightarrow>
          let userMessageIndex = walk_back (messages conv) (messageIndex - 1) in
          if userMessageIndex < 0 then Inr (perform [ShowToast ToastNoUserMessage] a)
          else
            (case message_at (messages conv) userMessageIndex of
               None \<Rightarrow> Inl TypeError
             | Some userMsg \<Rightarrow>
                 (case setCurrentConversation
                         (\<lambda>prev. case prev of None \<Rightarrow> Inl TypeError
                            | Some c \<Rightarrow> Inr (Some (c\<lparr>messages := slice0 (messages c) messageIndex\<rparr>)))
                         a of
                    Inl e \<Rightarrow> Inl e
                  | Inr a1 \<Rightarrow>
                      handleSendMessage (content userMsg) net
                        (perform [ShowToast ToastRegenerating] a1))))"

section \<open>Notions used in the statements and proofs\<close>

text \<open>
  The labels of the \<^verbatim>\<open>switch\<close>: the twelve event types of the stream and \<^verbatim>\<open>aborted\<close>, which
  \<^verbatim>\<open>sendMessageStream\<close> makes up when a read is aborted.
\<close>

definition event_labels :: "string list" where
  "event_labels = [''simple_mode_start'', ''simple_mode_complete'', ''stage1_start'',
     ''stage1_complete'', ''stage2_start'', ''stage2_complete'', ''stage3_start'',
     ''stage3_complete'', ''title_complete'', ''complete'', ''error'', ''aborted'',
     ''cancelled'']"

text \<open>
  For the proofs: the assignments to \<^verbatim>\<open>lastMsg\<close> of each case (none for a case that leaves
  the conversation alone), which cases have an updater, and what a case does after its
  updater.
\<close>

definition assignments :: "event_case \<Rightarrow> json \<Rightarrow> message \<Rightarrow> js_error + message" where
  "assignments k event =
     (case k of
        SimpleModeStart \<Rightarrow> simple_mode_start
      | SimpleModeComplete \<Rightarrow> simple_mode_complete event
      | Stage1Start \<Rightarrow> stage1_start event
      | Stage1Complete \<Rightarrow> stage1_complete event
      | Stage2Start \<Rightarrow> stage2_start
      | Stage2Complete \<Rightarrow> stage2_complete event
      | Stage3Start \<Rightarrow> stage3_start
      | Stage3Complete \<Rightarrow> stage3_complete event
      | Aborted \<Rightarrow> aborted
      | Cancelled \<Rightarrow> cancelled
      | _ \<Rightarrow> Inr)"

definition updates_message :: "event_case \<Rightarrow> bool" where
  "updates_message k =
     (k \<noteq> TitleComplete \<and> k \<noteq> Complete \<and> k \<noteq> ErrorEvent \<and> k \<noteq> Default)"

definition after_update :: "event_case \<Rightarrow> app \<Rightarrow> app" where
  "after_update k =
     (if k = SimpleModeStart then perform [ShowToast ToastSimpleMode]
      else if k = Cancelled then finalize else id)"

text \<open>
  For the statement that no handler looks at the role of the last message: the state
  with that role replaced.
\<close>

definition with_last_role :: "jsval \<Rightarrow> app \<Rightarrow> app" where
  "with_last_role r a =
     a\<lparr>currentConversation :=
         map_option (\<lambda>c. c\<lparr>messages :=
             (case rev (messages c) of [] \<Rightarrow> []
              | m # rms \<Rightarrow> rev rms @ [m\<lparr>role := r\<rparr>])\<rparr>)
           (currentConversation a)\<rparr>"

text \<open>
  Example states for the closed instances below: conversation \<^verbatim>\<open>c1\<close> during a turn, with
  the given messages; \<open>example_turn\<close> is the state right after the question
  \<^verbatim>\<open>hello\<close> and its placeholder were appended to an empty conversation.
\<close>

definition example_conversation :: "message list \<Rightarrow> app" where
  "example_conversation ms =
     \<lparr>currentConversationId = Some (str ''c1''),
      currentConversation = Some \<lparr>conversation_id = Some (JStr (str ''c1'')), messages = ms\<rparr>,
      isLoading = True, abortControllerRef = Some AbortController, effects = []\<rparr>"

definition example_turn :: app where
  "example_turn = example_conversation [userMessage (Some (JStr (str ''hello''))), assistantMessage]"

text \<open>
  The documented order of a staged turn, for C4: \<^verbatim>\<open>stage1_start\<close>, \<^verbatim>\<open>stage1_complete\<close>,
  \<^verbatim>\<open>stage2_start\<close>, \<^verbatim>\<open>stage2_complete\<close>, \<^verbatim>\<open>stage3_start\<close>, \<^verbatim>\<open>stage3_complete\<close>, each once and
  in this order, each \<^verbatim>\<open>_complete\<close> event carrying its \<^verbatim>\<open>data\<close> (present and not
  \<^verbatim>\<open>null\<close>); \<^verbatim>\<open>title_complete\<close> may come anywhere; \<^verbatim>\<open>complete\<close> may only close the sequence,
  after \<^verbatim>\<open>stage3_complete\<close>. \<open>stage_order n\<close> says that a sequence goes on in this order
  when \<open>n\<close> of the six stage events have been seen. \<open>ends_turn\<close> says that the last
  event is \<^verbatim>\<open>stage3_complete\<close> or \<^verbatim>\<open>complete\<close>.
\<close>

definition has_data :: "json \<Rightarrow> bool" where
  "has_data event =
     (js_get event (str ''data'') \<noteq> None \<and> js_get event (str ''data'') \<noteq> Some JNull)"

fun stage_order :: "nat \<Rightarrow> callback list \<Rightarrow> bool" where
  "stage_order n [] = True"
| "stage_order n (ParseFailed # cbs) = False"
| "stage_order n (OnEvent t event # cbs) =
     (case switch_case t of
        Stage1Start \<Rightarrow> n = 0 \<and> stage_order 1 cbs
      | Stage1Complete \<Rightarrow> n = 1 \<and> has_data event \<and> stage_order 2 cbs
      | Stage2Start \<Rightarrow> n = 2 \<and> stage_order 3 cbs
      | Stage2Complete \<Rightarrow> n = 3 \<and> has_data event \<and> stage_order 4 cbs
      | Stage3Start \<Rightarrow> n = 4 \<and> stage_order 5 cbs
      | Stage3Complete \<Rightarrow> n = 5 \<and> has_data event \<and> stage_order 6 cbs
      | TitleComplete \<Rightarrow> stage_order n cbs
      | Complete \<Rightarrow> n = 6 \<and> cbs = []
      | _ \<Rightarrow> False)"

fun ends_turn :: "callback list \<Rightarrow> bool" where
  "ends_turn [] = False"
| "ends_turn [ParseFailed] = False"
| "ends_turn [OnEvent t event] = (switch_case t = Stage3Complete \<or> switch_case t = Complete)"
| "ends_turn (cb # cbs) = ends_turn cbs"

text \<open>
  For the proof of C4: what the pending message looks like after \<open>n\<close> of the six stage
  events.
\<close>

definition msg_phase :: "nat \<Rightarrow> message \<Rightarrow> bool" where
  "msg_phase n m =
     (\<exists>l. loading m = Some l \<and> loading_stage1 l = (n = 1) \<and> loading_stage2 l = (n = 3) \<and>
        loading_stage3 l = (n = 5) \<and> \<not> loading_simple l \<and> simpleResponse m = Some JNull \<and>
        (2 \<le> n \<longrightarrow> stage1 m \<noteq> None \<and> stage1 m \<noteq> Some JNull) \<and>
        (4 \<le> n \<longrightarrow> stage2 m \<noteq> None \<and> stage2 m \<noteq> Some JNull) \<and>
        (6 \<le> n \<longrightarrow> stage3 m \<noteq> None \<and> stage3 m \<noteq> Some JNull))"

text \<open>For C5: no \<^verbatim>\<open>simple_mode_complete\<close> among the calls.\<close>

fun no_simple_complete :: "callback list \<Rightarrow> bool" where
  "no_simple_complete [] = True"
| "no_simple_complete (ParseFailed # cbs) = no_simple_complete cbs"
| "no_simple_complete (OnEvent t event # cbs) =
     (switch_case t \<noteq> SimpleModeComplete \<and> no_simple_complete cbs)"

text \<open>
  More examples for the closed instances: the callback for the stream record
  \<^verbatim>\<open>{"type": ty, ...members}\<close>, the six stage events of a turn, the events of a whole
  staged turn, a finished assistant message, and conversation \<^verbatim>\<open>c1\<close> with no turn under
  way.
\<close>

definition stream_event :: "string \<Rightarrow> (string \<times> json) list \<Rightarrow> callback" where
  "stream_event ty members =
     OnEvent (Some (JStr (str ty)))
       (JObj ((str ''type'', JStr (str ty)) # map (\<lambda>(k, v). (str k, v)) members))"

definition example_stage_events :: "callback list" where
  "example_stage_events =
     [stream_event ''stage1_start'' [(''models'', JArr [JStr (str ''m1'')])],
      stream_event ''stage1_complete'' [(''data'', JArr [JStr (str ''r1'')])],
      stream_event ''stage2_start'' [],
      stream_event ''stage2_complete'' [(''data'', JArr [JStr (str ''k1'')]), (''metadata'', JObj [])],
      stream_event ''stage3_start'' [],
      stream_event ''stage3_complete'' [(''data'', JStr (str ''final''))]]"

definition example_staged_turn :: "callback list" where
  "example_staged_turn =
     example_stage_events @ [stream_event ''title_complete'' [], stream_event ''complete'' []]"

definition example_answer :: message where
  "example_answer = assistantMessage\<lparr>stage3 := Some (JStr (str ''done''))\<rparr>"

definition example_idle :: "message list \<Rightarrow> app" where
  "example_idle ms = (example_conversation ms)\<lparr>isLoading := False, abortControllerRef := None\<rparr>"

section \<open>The decoder works chunk by chunk\<close>

lemma split_nl_not_Nil: "split_nl s \<noteq> []"
  by (induction s) (auto split: list.splits)

lemma split_nl_append: "split_nl (a @ 10 # b) = split_nl a @ split_nl b"
proof (induction a)
  case Nil
  show ?case by simp
next
  case (Cons c a)
  then show ?case
    by (cases "split_nl a") (auto simp: split_nl_not_Nil)
qed

lemma split_nl_line: "10 \<notin> set l \<Longrightarrow> split_nl l = [l]"
  by (induction l) auto

lemma process_line_Nil: "process_line [] = []"
  by (simp add: process_line_def startsWith_def str_def)

lemma decode_chunk_append: "decode_chunk (a @ 10 # b) = decode_chunk a @ decode_chunk b"
  by (simp add: decode_chunk_def split_nl_append)

lemma decode_chunk_line: "10 \<notin> set l \<Longrightarrow> decode_chunk l = process_line l"
  by (simp add: decode_chunk_def split_nl_line)

lemma decode_chunk_Nil: "decode_chunk [] = []"
  by (simp add: decode_chunk_def process_line_Nil)

text \<open>A line that starts the chunk or follows a line break is decoded as a line.\<close>

lemma decode_chunk_after_break:
  assumes "before = [] \<or> last before = 10" and "10 \<notin> set l"
  shows "decode_chunk (before @ l @ 10 # after) =
         decode_chunk before @ process_line l @ decode_chunk after"
proof (cases "before = []")
  case True
  with assms(2) show ?thesis
    using decode_chunk_append [of l after] by (simp add: decode_chunk_line decode_chunk_Nil)
next
  case False
  with assms(1) obtain b where b: "before = b @ [10]"
    by (metis append_butlast_last_id)
  have "decode_chunk (before @ l @ 10 # after) = decode_chunk b @ decode_chunk (l @ 10 # after)"
    using decode_chunk_append [of b "l @ 10 # after"] by (simp add: b)
  also have "decode_chunk (l @ 10 # after) = process_line l @ decode_chunk after"
    using assms(2) by (simp add: decode_chunk_append decode_chunk_line)
  also have "decode_chunk b = decode_chunk before"
    using decode_chunk_append [of b "[]"] by (simp add: b decode_chunk_Nil)
  finally show ?thesis by simp
qed

lemma read_loop_chunks:
  "read_loop (map Chunk cs @ rs) =
     (concat (map decode_chunk cs) @ fst (read_loop rs), snd (read_loop rs))"
  by (induction cs) (auto split: prod.splits)

lemma data_line:
  "process_line (str ''data: '' @ payload) =
     (case JSON_parse payload of None \<Rightarrow> [ParseFailed] | Some JNull \<Rightarrow> [ParseFailed]
      | Some event \<Rightarrow> [OnEvent (js_get event (str ''type'')) event])"
  by (simp add: process_line_def startsWith_def str_def)

lemma data_line_no_nl: "10 \<notin> set payload \<Longrightarrow> 10 \<notin> set (str ''data: '' @ payload)"
  by (simp add: str_def)

lemma decode_chunk_record:
  assumes "10 \<notin> set payload" and "before = [] \<or> last before = 10"
  shows "decode_chunk (before @ str ''data: '' @ payload @ 10 # after) =
         decode_chunk before @ process_line (str ''data: '' @ payload) @ decode_chunk after"
  using decode_chunk_after_break [OF assms(2) data_line_no_nl [OF assms(1)], of after]
  by simp

text \<open>
  C1, as the specification states it, fails: the record of the example, split as
  \<^verbatim>\<open>data: {"typ\<close> and \<^verbatim>\<open>e":"stage1_start"}\n\<close>, gives no call of \<^verbatim>\<open>onEvent\<close> at all. The
  first chunk is a \<^verbatim>\<open>data: \<close> line whose payload does not parse (one logged parse
  failure); no line of the second chunk starts with \<^verbatim>\<open>data: \<close>.
\<close>

theorem split_record_not_reassembled:
  \<open>sendMessageStream (Response True
      [Chunk (str ''data: {"typ''), Chunk (str ''e":"stage1_start"}'' @ [10])]) =
    ([ParseFailed], None)\<close>
  by code_simp

text \<open>
  C1, amended: a record that lies whole inside one chunk (its \<^verbatim>\<open>data: \<close> line starts the
  chunk or follows a line break, and its own line break is in the same chunk) is handed
  to \<^verbatim>\<open>onEvent\<close> exactly once, in its place between the calls for what comes before and
  after it. Nothing is kept from one read to the next: the end of a chunk ends the
  line, so two chunks are decoded as the one chunk that has a line break between them.
\<close>

theorem whole_record_emitted_once:
  assumes "JSON_parse payload = Some event" and "event \<noteq> JNull"
    and "10 \<notin> set payload" and "before = [] \<or> last before = 10"
  shows "sendMessageStream (Response True
           (map Chunk cs @ Chunk (before @ str ''data: '' @ payload @ 10 # after) # rs)) =
         (concat (map decode_chunk cs) @ decode_chunk before
            @ [OnEvent (js_get event (str ''type'')) event]
            @ decode_chunk after @ fst (read_loop rs),
          snd (read_loop rs))
       \<and> sendMessageStream (Response True (Chunk a # Chunk b # rs)) =
         sendMessageStream (Response True (Chunk (a @ 10 # b) # rs))"
proof
  have "process_line (str ''data: '' @ payload) = [OnEvent (js_get event (str ''type'')) event]"
    using assms(1,2) by (cases event) (simp_all add: data_line)
  then have "decode_chunk (before @ str ''data: '' @ payload @ 10 # after) =
        decode_chunk before @ [OnEvent (js_get event (str ''type'')) event] @ decode_chunk after"
    using decode_chunk_record [OF assms(3,4), of after] by simp
  then show "sendMessageStream (Response True
           (map Chunk cs @ Chunk (before @ str ''data: '' @ payload @ 10 # after) # rs)) =
         (concat (map decode_chunk cs) @ decode_chunk before
            @ [OnEvent (js_get event (str ''type'')) event]
            @ decode_chunk after @ fst (read_loop rs),
          snd (read_loop rs))"
    by (simp add: read_loop_chunks split: prod.splits)
next
  show "sendMessageStream (Response True (Chunk a # Chunk b # rs)) =
        sendMessageStream (Response True (Chunk (a @ 10 # b) # rs))"
    by (simp add: decode_chunk_append split: prod.splits)
qed

theorem whole_record_emitted_once_witness:
  \<open>JSON_parse (str ''{"type":"stage1_start"}'') =
     Some (JObj [(str ''type'', JStr (str ''stage1_start''))]) \<and>
   JObj [(str ''type'', JStr (str ''stage1_start''))] \<noteq> JNull \<and>
   10 \<notin> set (str ''{"type":"stage1_start"}'') \<and>
   sendMessageStream (Response True
     (map Chunk [] @
      Chunk ([] @ str ''data: '' @ str ''{"type":"stage1_start"}'' @ 10 # []) # [])) =
   ([OnEvent (Some (JStr (str ''stage1_start'')))
       (JObj [(str ''type'', JStr (str ''stage1_start''))])], None)\<close>
proof -
  have h1: \<open>JSON_parse (str ''{"type":"stage1_start"}'') =
     Some (JObj [(str ''type'', JStr (str ''stage1_start''))])\<close> by code_simp
  have h2: \<open>JObj [(str ''type'', JStr (str ''stage1_start''))] \<noteq> JNull\<close> by simp
  have h3: \<open>10 \<notin> set (str ''{"type":"stage1_start"}'')\<close> by code_simp
  have h4: "([] :: jstring) = [] \<or> last ([] :: jstring) = 10" by simp
  have t: \<open>js_get (JObj [(str ''type'', JStr (str ''stage1_start''))]) (str ''type'') =
     Some (JStr (str ''stage1_start''))\<close> by simp
  show ?thesis
    unfolding conjunct1 [OF whole_record_emitted_once [OF h1 h2 h3 h4]] t
    using h1 h3 by (simp add: decode_chunk_Nil)
qed

text \<open>
  C9: a \<^verbatim>\<open>data: \<close> record whose payload is not valid JSON is dropped with one logged
  parse failure and nothing else: the calls made for everything before it (earlier
  chunks, earlier lines of its chunk) and for everything after it (later lines, later
  reads) are the same as without it, and whether the function throws is decided by the
  later reads alone.
\<close>

theorem malformed_record_skipped:
  assumes "JSON_parse payload = None" and "10 \<notin> set payload"
    and "before = [] \<or> last before = 10"
  shows "sendMessageStream (Response True
           (map Chunk cs @ Chunk (before @ str ''data: '' @ payload @ 10 # after) # rs)) =
         (concat (map decode_chunk cs) @ decode_chunk before @ [ParseFailed]
            @ decode_chunk after @ fst (read_loop rs),
          snd (read_loop rs))"
proof -
  have "decode_chunk (before @ str ''data: '' @ payload @ 10 # after) =
        decode_chunk before @ [ParseFailed] @ decode_chunk after"
    using decode_chunk_record [OF assms(2,3), of after] by (simp add: data_line assms(1))
  then show ?thesis
    by (simp add: read_loop_chunks split: prod.splits)
qed

theorem malformed_record_skipped_witness:
  \<open>JSON_parse (str ''{"type":'') = None \<and> 10 \<notin> set (str ''{"type":'') \<and>
   sendMessageStream (Response True
     (map Chunk [] @
      Chunk ((str ''data: {"type":"stage1_start"}'' @ [10]) @ str ''data: '' @ str ''{"type":'' @ 10 #
        (str ''data: {"type":"stage1_complete","data":[]}'' @ [10])) #
      [Chunk (str ''data: {"type":"complete"}'' @ [10])])) =
   ([OnEvent (Some (JStr (str ''stage1_start''))) (JObj [(str ''type'', JStr (str ''stage1_start''))]),
     ParseFailed,
     OnEvent (Some (JStr (str ''stage1_complete'')))
       (JObj [(str ''type'', JStr (str ''stage1_complete'')), (str ''data'', JArr [])]),
     OnEvent (Some (JStr (str ''complete''))) (JObj [(str ''type'', JStr (str ''complete''))])],
    None)\<close>
proof -
  have h1: \<open>JSON_parse (str ''{"type":'') = None\<close> by code_simp
  have h2: \<open>10 \<notin> set (str ''{"type":'')\<close> by code_simp
  have h3: \<open>str ''data: {"type":"stage1_start"}'' @ [10] = [] \<or>
      last (str ''data: {"type":"stage1_start"}'' @ [10]) = 10\<close> by simp
  have b: \<open>decode_chunk (str ''data: {"type":"stage1_start"}'' @ [10]) =
     [OnEvent (Some (JStr (str ''stage1_start''))) (JObj [(str ''type'', JStr (str ''stage1_start''))])]\<close>
    by code_simp
  have a: \<open>decode_chunk (str ''data: {"type":"stage1_complete","data":[]}'' @ [10]) =
     [OnEvent (Some (JStr (str ''stage1_complete'')))
       (JObj [(str ''type'', JStr (str ''stage1_complete'')), (str ''data'', JArr [])])]\<close>
    by code_simp
  have r: \<open>read_loop [Chunk (str ''data: {"type":"complete"}'' @ [10])] =
     ([OnEvent (Some (JStr (str ''complete''))) (JObj [(str ''type'', JStr (str ''complete''))])], None)\<close>
    by code_simp
  show ?thesis
    unfolding malformed_record_skipped [OF h1 h2 h3] a b r
    using h1 h2 by simp
qed

section \<open>What the handlers do to the conversation\<close>

lemma switch_case_labels:
  "switch_case (Some (JStr (str ''simple_mode_start''))) = SimpleModeStart"
  "switch_case (Some (JStr (str ''simple_mode_complete''))) = SimpleModeComplete"
  "switch_case (Some (JStr (str ''stage1_start''))) = Stage1Start"
  "switch_case (Some (JStr (str ''stage1_complete''))) = Stage1Complete"
  "switch_case (Some (JStr (str ''stage2_start''))) = Stage2Start"
  "switch_case (Some (JStr (str ''stage2_complete''))) = Stage2Complete"
  "switch_case (Some (JStr (str ''stage3_start''))) = Stage3Start"
  "switch_case (Some (JStr (str ''stage3_complete''))) = Stage3Complete"
  "switch_case (Some (JStr (str ''title_complete''))) = TitleComplete"
  "switch_case (Some (JStr (str ''complete''))) = Complete"
  "switch_case (Some (JStr (str ''error''))) = ErrorEvent"
  "switch_case (Some (JStr (str ''aborted''))) = Aborted"
  "switch_case (Some (JStr (str ''cancelled''))) = Cancelled"
  by (simp_all add: switch_case_def str_def)

lemma switch_case_Default:
  "switch_case t = Default \<longleftrightarrow> t \<notin> set (map (\<lambda>s. Some (JStr (str s))) event_labels)"
  by (auto simp: switch_case_def event_labels_def)

lemmas assignment_defs = simple_mode_start_def simple_mode_complete_def stage1_start_def
  stage1_complete_def stage2_start_def stage2_complete_def stage3_start_def
  stage3_complete_def aborted_def cancelled_def set_loading_def

lemma set_lastMsg:
  "setCurrentConversation (update_lastMsg f) a =
     (case currentConversation a of None \<Rightarrow> Inl TypeError
      | Some c \<Rightarrow>
          (case rev (messages c) of [] \<Rightarrow> Inl TypeError
           | m # rms \<Rightarrow>
               map_sum id (\<lambda>m'. a\<lparr>currentConversation := Some (c\<lparr>messages := rev rms @ [m']\<rparr>)\<rparr>)
                 (f m)))"
proof (cases "currentConversation a")
  case None
  then show ?thesis by (simp add: setCurrentConversation_def update_lastMsg_def)
next
  case (Some c)
  show ?thesis
  proof (cases "messages c" rule: rev_cases)
    case Nil
    with Some show ?thesis by (simp add: setCurrentConversation_def update_lastMsg_def)
  next
    case (snoc ms m)
    with Some show ?thesis
      by (cases ms) (auto simp: setCurrentConversation_def update_lastMsg_def split: sum.splits)
  qed
qed

lemma set_lastMsg_Inr:
  "setCurrentConversation (update_lastMsg f) a = Inr a' \<longleftrightarrow>
     (\<exists>c ms m m'. currentConversation a = Some c \<and> messages c = ms @ [m] \<and> f m = Inr m' \<and>
        a' = a\<lparr>currentConversation := Some (c\<lparr>messages := ms @ [m']\<rparr>)\<rparr>)"
proof (cases "currentConversation a")
  case None
  then show ?thesis by (simp add: set_lastMsg)
next
  case (Some c)
  show ?thesis
  proof (cases "messages c" rule: rev_cases)
    case Nil
    with Some show ?thesis by (simp add: set_lastMsg)
  next
    case (snoc ms m)
    with Some show ?thesis
      by (cases "f m") (auto simp: set_lastMsg)
  qed
qed

lemma onEvent_assignments:
  assumes "updates_message (switch_case t)"
  shows "onEvent t e a =
     map_sum id (after_update (switch_case t))
       (setCurrentConversation (update_lastMsg (assignments (switch_case t) e)) a)"
  using assms
  by (cases "switch_case t")
     (simp_all add: onEvent_def updates_message_def assignments_def after_update_def
        sum.map_id)

lemma onEvent_updater:
  assumes "updates_message (switch_case t)"
  shows "onEvent t e a = Inr a' \<longleftrightarrow>
     (\<exists>c ms m m'. currentConversation a = Some c \<and> messages c = ms @ [m] \<and>
        assignments (switch_case t) e m = Inr m' \<and>
        a' = after_update (switch_case t)
               (a\<lparr>currentConversation := Some (c\<lparr>messages := ms @ [m']\<rparr>)\<rparr>))"
proof -
  have "onEvent t e a = Inr a' \<longleftrightarrow>
    (\<exists>b. setCurrentConversation (update_lastMsg (assignments (switch_case t) e)) a = Inr b \<and>
       a' = after_update (switch_case t) b)"
    unfolding onEvent_assignments [OF assms]
    by (cases "setCurrentConversation (update_lastMsg (assignments (switch_case t) e)) a") auto
  then show ?thesis
    unfolding set_lastMsg_Inr by blast
qed

lemma onEvent_other:
  assumes "\<not> updates_message (switch_case t)"
  shows "\<exists>a'. onEvent t e a = Inr a' \<and> currentConversation a' = currentConversation a
     \<and> currentConversationId a' = currentConversationId a"
  using assms
  by (cases "switch_case t")
     (auto simp: onEvent_def updates_message_def perform_def finalize_def)

lemma assignments_role:
  "assignments k e (m\<lparr>role := r\<rparr>) = map_sum id (\<lambda>m. m\<lparr>role := r\<rparr>) (assignments k e m)"
  by (cases k) (auto simp: assignments_def assignment_defs split: option.splits)

lemma assignments_loading:
  assumes "loading m \<noteq> None"
  shows "\<exists>m'. assignments k e m = Inr m' \<and> loading m' \<noteq> None"
  using assms
  by (cases k) (auto simp: assignments_def assignment_defs split: option.splits)

lemma assignments_simpleResponse:
  assumes "assignments k e m = Inr m'" and "k \<noteq> SimpleModeComplete"
  shows "simpleResponse m' = simpleResponse m"
  using assms
  by (cases k) (auto simp: assignments_def assignment_defs split: option.splits if_splits)

lemma with_last_role_after_update:
  "with_last_role r (after_update k a) = after_update k (with_last_role r a)"
  by (simp add: with_last_role_def after_update_def perform_def finalize_def)

lemma onEvent_role:
  assumes "updates_message (switch_case t)"
  shows "onEvent t e (with_last_role r a) = map_sum id (with_last_role r) (onEvent t e a)"
proof (cases "currentConversation a")
  case None
  then show ?thesis
    by (simp add: onEvent_assignments [OF assms] set_lastMsg with_last_role_def)
next
  case (Some c)
  show ?thesis
  proof (cases "messages c" rule: rev_cases)
    case Nil
    with Some show ?thesis
      by (simp add: onEvent_assignments [OF assms] set_lastMsg with_last_role_def)
  next
    case (snoc ms m)
    with Some show ?thesis
      by (cases "assignments (switch_case t) e m")
         (simp_all add: onEvent_assignments [OF assms] set_lastMsg assignments_role
            with_last_role_def after_update_def perform_def finalize_def)
  qed
qed

text \<open>
  C10: each of the ten events with an updater (\<^verbatim>\<open>simple_mode_start\<close>,
  \<^verbatim>\<open>simple_mode_complete\<close>, \<^verbatim>\<open>stage1_start\<close> to \<^verbatim>\<open>stage3_complete\<close>, \<^verbatim>\<open>aborted\<close>,
  \<^verbatim>\<open>cancelled\<close>), when its updater does not throw, replaces the last message of the list
  and nothing else of the conversation: the messages before it and the other fields of
  the conversation are as they were. The handler takes the last message whatever it is:
  with another role in that message the handler does the same, and the role is still
  the other one afterwards.
\<close>

theorem handlers_change_last_message_only:
  assumes "switch_case t \<in> {SimpleModeStart, SimpleModeComplete, Stage1Start, Stage1Complete,
      Stage2Start, Stage2Complete, Stage3Start, Stage3Complete, Aborted, Cancelled}"
    and "onEvent t e a = Inr a'"
  shows "(\<exists>c ms m m'. currentConversation a = Some c \<and> messages c = ms @ [m] \<and>
            currentConversation a' = Some (c\<lparr>messages := ms @ [m']\<rparr>))
       \<and> onEvent t e (with_last_role r a) = map_sum id (with_last_role r) (onEvent t e a)"
proof -
  from assms(1) have u: "updates_message (switch_case t)"
    by (auto simp: updates_message_def)
  from assms(2) obtain c ms m m' where
    "currentConversation a = Some c" "messages c = ms @ [m]"
    "a' = after_update (switch_case t) (a\<lparr>currentConversation := Some (c\<lparr>messages := ms @ [m']\<rparr>)\<rparr>)"
    unfolding onEvent_updater [OF u] by blast
  then have "\<exists>c ms m m'. currentConversation a = Some c \<and> messages c = ms @ [m] \<and>
            currentConversation a' = Some (c\<lparr>messages := ms @ [m']\<rparr>)"
    by (auto simp: after_update_def perform_def finalize_def)
  with onEvent_role [OF u] show ?thesis by blast
qed

theorem handlers_change_last_message_only_witness:
  "switch_case (Some (JStr (str ''stage3_start''))) \<in>
     {SimpleModeStart, SimpleModeComplete, Stage1Start, Stage1Complete,
      Stage2Start, Stage2Complete, Stage3Start, Stage3Complete, Aborted, Cancelled}
   \<and> onEvent (Some (JStr (str ''stage3_start''))) (JObj [])
       (example_conversation [userMessage (Some (JStr (str ''hello''))),
          assistantMessage\<lparr>stage3 := Some (JStr (str ''done''))\<rparr>]) =
     Inr (example_conversation [userMessage (Some (JStr (str ''hello''))),
          assistantMessage\<lparr>stage3 := Some (JStr (str ''done'')),
            loading := Some \<lparr>loading_stage1 = False, loading_stage2 = False,
              loading_stage3 = True, loading_simple = False, loading_stage1Models = None\<rparr>\<rparr>])
   \<and> ((\<exists>c ms m m'.
          currentConversation (example_conversation [userMessage (Some (JStr (str ''hello''))),
            assistantMessage\<lparr>stage3 := Some (JStr (str ''done''))\<rparr>]) = Some c \<and>
          messages c = ms @ [m] \<and>
          currentConversation (example_conversation [userMessage (Some (JStr (str ''hello''))),
            assistantMessage\<lparr>stage3 := Some (JStr (str ''done'')),
              loading := Some \<lparr>loading_stage1 = False, loading_stage2 = False,
                loading_stage3 = True, loading_simple = False, loading_stage1Models = None\<rparr>\<rparr>])
            = Some (c\<lparr>messages := ms @ [m']\<rparr>))
      \<and> onEvent (Some (JStr (str ''stage3_start''))) (JObj [])
          (with_last_role (Some (JStr (str ''user'')))
             (example_conversation [userMessage (Some (JStr (str ''hello''))),
                assistantMessage\<lparr>stage3 := Some (JStr (str ''done''))\<rparr>])) =
        map_sum id (with_last_role (Some (JStr (str ''user''))))
          (onEvent (Some (JStr (str ''stage3_start''))) (JObj [])
             (example_conversation [userMessage (Some (JStr (str ''hello''))),
                assistantMessage\<lparr>stage3 := Some (JStr (str ''done''))\<rparr>])))"
proof -
  have h1: "switch_case (Some (JStr (str ''stage3_start''))) \<in>
     {SimpleModeStart, SimpleModeComplete, Stage1Start, Stage1Complete,
      Stage2Start, Stage2Complete, Stage3Start, Stage3Complete, Aborted, Cancelled}"
    by (simp add: switch_case_labels)
  have h2: "onEvent (Some (JStr (str ''stage3_start''))) (JObj [])
       (example_conversation [userMessage (Some (JStr (str ''hello''))),
          assistantMessage\<lparr>stage3 := Some (JStr (str ''done''))\<rparr>]) =
     Inr (example_conversation [userMessage (Some (JStr (str ''hello''))),
          assistantMessage\<lparr>stage3 := Some (JStr (str ''done'')),
            loading := Some \<lparr>loading_stage1 = False, loading_stage2 = False,
              loading_stage3 = True, loading_simple = False, loading_stage1Models = None\<rparr>\<rparr>])"
    by (simp add: onEvent_def switch_case_labels set_lastMsg stage3_start_def set_loading_def
          example_conversation_def assistantMessage_def)
  show ?thesis
    by (rule conjI [OF h1 conjI [OF h2 handlers_change_last_message_only [OF h1 h2]]])
qed

text \<open>
  C7: a read that is aborted makes \<^verbatim>\<open>sendMessageStream\<close> hand the event \<^verbatim>\<open>aborted\<close> to the
  callback after the events already decoded, and return; no later read is made. Applied
  to a last message whose \<^verbatim>\<open>loading.stage1\<close> is true, \<^verbatim>\<open>aborted\<close> sets the four flags to
  false and changes nothing else: \<^verbatim>\<open>simpleResponse\<close>, \<^verbatim>\<open>stage1\<close>, \<^verbatim>\<open>stage2\<close>, \<^verbatim>\<open>stage3\<close> and
  \<^verbatim>\<open>metadata\<close> of the message, the other messages, and the rest of the state are as
  they were.
\<close>

theorem abort_clears_flags_keeps_data:
  assumes "currentConversation a = Some c" and "messages c = ms @ [m]"
    and "loading m = Some l" and "loading_stage1 l"
  shows "onEvent (Some (JStr (str ''aborted''))) event a =
           Inr (a\<lparr>currentConversation := Some (c\<lparr>messages := ms @
             [m\<lparr>loading := Some (l\<lparr>loading_stage1 := False, loading_stage2 := False,
                  loading_stage3 := False, loading_simple := False\<rparr>)\<rparr>]\<rparr>)\<rparr>)
       \<and> sendMessageStream (Response True (map Chunk cs @ ReadError AbortError # rs)) =
           (concat (map decode_chunk cs) @ [OnEvent (Some (JStr (str ''aborted''))) aborted_event],
            None)"
proof
  have "updates_message (switch_case (Some (JStr (str ''aborted''))))"
    by (simp add: switch_case_labels updates_message_def)
  from onEvent_assignments [OF this] assms(1,2,3)
  show "onEvent (Some (JStr (str ''aborted''))) event a =
           Inr (a\<lparr>currentConversation := Some (c\<lparr>messages := ms @
             [m\<lparr>loading := Some (l\<lparr>loading_stage1 := False, loading_stage2 := False,
                  loading_stage3 := False, loading_simple := False\<rparr>)\<rparr>]\<rparr>)\<rparr>)"
    by (simp add: switch_case_labels set_lastMsg assignments_def aborted_def set_loading_def
          after_update_def)
next
  show "sendMessageStream (Response True (map Chunk cs @ ReadError AbortError # rs)) =
           (concat (map decode_chunk cs) @ [OnEvent (Some (JStr (str ''aborted''))) aborted_event],
            None)"
    by (simp add: read_loop_chunks)
qed

theorem abort_clears_flags_keeps_data_witness:
  "currentConversation (example_conversation [userMessage (Some (JStr (str ''hello''))),
      assistantMessage\<lparr>loading := Some \<lparr>loading_stage1 = True, loading_stage2 = False,
        loading_stage3 = False, loading_simple = False,
        loading_stage1Models = Some (JArr [])\<rparr>\<rparr>]) =
     Some \<lparr>conversation_id = Some (JStr (str ''c1'')),
       messages = [userMessage (Some (JStr (str ''hello''))),
         assistantMessage\<lparr>loading := Some \<lparr>loading_stage1 = True, loading_stage2 = False,
           loading_stage3 = False, loading_simple = False,
           loading_stage1Models = Some (JArr [])\<rparr>\<rparr>]\<rparr>
   \<and> loading_stage1 \<lparr>loading_stage1 = True, loading_stage2 = False,
        loading_stage3 = False, loading_simple = False, loading_stage1Models = Some (JArr [])\<rparr>
   \<and> onEvent (Some (JStr (str ''aborted''))) aborted_event
       (example_conversation [userMessage (Some (JStr (str ''hello''))),
          assistantMessage\<lparr>loading := Some \<lparr>loading_stage1 = True, loading_stage2 = False,
            loading_stage3 = False, loading_simple = False,
            loading_stage1Models = Some (JArr [])\<rparr>\<rparr>]) =
     Inr (example_conversation [userMessage (Some (JStr (str ''hello''))),
          assistantMessage\<lparr>loading := Some \<lparr>loading_stage1 = False, loading_stage2 = False,
            loading_stage3 = False, loading_simple = False,
            loading_stage1Models = Some (JArr [])\<rparr>\<rparr>])
   \<and> sendMessageStream (Response True [ReadError AbortError]) =
     ([OnEvent (Some (JStr (str ''aborted''))) aborted_event], None)"
proof -
  have h1: "currentConversation (example_conversation [userMessage (Some (JStr (str ''hello''))),
      assistantMessage\<lparr>loading := Some \<lparr>loading_stage1 = True, loading_stage2 = False,
        loading_stage3 = False, loading_simple = False,
        loading_stage1Models = Some (JArr [])\<rparr>\<rparr>]) =
     Some \<lparr>conversation_id = Some (JStr (str ''c1'')),
       messages = [userMessage (Some (JStr (str ''hello''))),
         assistantMessage\<lparr>loading := Some \<lparr>loading_stage1 = True, loading_stage2 = False,
           loading_stage3 = False, loading_simple = False,
           loading_stage1Models = Some (JArr [])\<rparr>\<rparr>]\<rparr>"
    by (simp add: example_conversation_def)
  have h2: "messages \<lparr>conversation_id = Some (JStr (str ''c1'')),
       messages = [userMessage (Some (JStr (str ''hello''))),
         assistantMessage\<lparr>loading := Some \<lparr>loading_stage1 = True, loading_stage2 = False,
           loading_stage3 = False, loading_simple = False,
           loading_stage1Models = Some (JArr [])\<rparr>\<rparr>]\<rparr> =
     [userMessage (Some (JStr (str ''hello'')))] @
       [assistantMessage\<lparr>loading := Some \<lparr>loading_stage1 = True, loading_stage2 = False,
           loading_stage3 = False, loading_simple = False,
           loading_stage1Models = Some (JArr [])\<rparr>\<rparr>]"
    by simp
  have h3: "loading (assistantMessage\<lparr>loading := Some \<lparr>loading_stage1 = True,
        loading_stage2 = False, loading_stage3 = False, loading_simple = False,
        loading_stage1Models = Some (JArr [])\<rparr>\<rparr>) =
      Some \<lparr>loading_stage1 = True, loading_stage2 = False,
        loading_stage3 = False, loading_simple = False, loading_stage1Models = Some (JArr [])\<rparr>"
    by simp
  have h4: "loading_stage1 \<lparr>loading_stage1 = True, loading_stage2 = False,
        loading_stage3 = False, loading_simple = False, loading_stage1Models = Some (JArr [])\<rparr>"
    by simp
  show ?thesis
    using abort_clears_flags_keeps_data [OF h1 h2 h3 h4, of aborted_event "[]" "[]"]
    by (simp add: example_conversation_def)
qed

text \<open>
  C8: an event whose type is none of the labels of the \<^verbatim>\<open>switch\<close> (another string,
  \<^verbatim>\<open>undefined\<close>, a value that is no string) changes nothing but the console, where its
  type is logged: the conversation, its id, \<^verbatim>\<open>isLoading\<close> and the abort controller are as
  they were, and the one new entry of what was done to the outside is that console
  line. Followed by \<^verbatim>\<open>complete\<close>, it leaves the state that \<^verbatim>\<open>complete\<close> alone leaves, but
  for that console line: the conversation is untouched, the conversation list is
  reloaded, the toast is shown, and the turn is finalized: \<^verbatim>\<open>isLoading\<close> is false and
  the abort controller is \<^verbatim>\<open>null\<close>.
\<close>

theorem unknown_event_only_logged:
  assumes "t \<notin> set (map (\<lambda>s. Some (JStr (str s))) event_labels)"
  shows "onEvent t e a = Inr (a\<lparr>effects := effects a @ [ConsoleLogUnknown t]\<rparr>)
       \<and> pump [OnEvent t e, OnEvent (Some (JStr (str ''complete''))) e'] a =
           Inr (a\<lparr>isLoading := False, abortControllerRef := None,
                  effects := effects a @ [ConsoleLogUnknown t, LoadConversations,
                    ShowToast ToastCompleted]\<rparr>)
       \<and> pump [OnEvent (Some (JStr (str ''complete''))) e'] a =
           Inr (a\<lparr>isLoading := False, abortControllerRef := None,
                  effects := effects a @ [LoadConversations, ShowToast ToastCompleted]\<rparr>)"
proof -
  from assms have "switch_case t = Default"
    using switch_case_Default [of t] by blast
  then show ?thesis
    by (simp add: onEvent_def switch_case_labels perform_def finalize_def)
qed

theorem unknown_event_only_logged_witness:
  "Some (JStr (str ''foo_bar'')) \<notin> set (map (\<lambda>s. Some (JStr (str s))) event_labels)
   \<and> onEvent (Some (JStr (str ''foo_bar''))) (JObj [(str ''type'', JStr (str ''foo_bar''))])
       example_turn =
     Inr \<lparr>currentConversationId = Some (str ''c1''),
       currentConversation = Some \<lparr>conversation_id = Some (JStr (str ''c1'')),
         messages = [userMessage (Some (JStr (str ''hello''))), assistantMessage]\<rparr>,
       isLoading = True, abortControllerRef = Some AbortController,
       effects = [ConsoleLogUnknown (Some (JStr (str ''foo_bar'')))]\<rparr>
   \<and> pump [OnEvent (Some (JStr (str ''foo_bar''))) (JObj [(str ''type'', JStr (str ''foo_bar''))]),
           OnEvent (Some (JStr (str ''complete''))) (JObj [(str ''type'', JStr (str ''complete''))])]
       example_turn =
     Inr \<lparr>currentConversationId = Some (str ''c1''),
       currentConversation = Some \<lparr>conversation_id = Some (JStr (str ''c1'')),
         messages = [userMessage (Some (JStr (str ''hello''))), assistantMessage]\<rparr>,
       isLoading = False, abortControllerRef = None,
       effects = [ConsoleLogUnknown (Some (JStr (str ''foo_bar''))), LoadConversations,
         ShowToast ToastCompleted]\<rparr>
   \<and> pump [OnEvent (Some (JStr (str ''complete''))) (JObj [(str ''type'', JStr (str ''complete''))])]
       example_turn =
     Inr \<lparr>currentConversationId = Some (str ''c1''),
       currentConversation = Some \<lparr>conversation_id = Some (JStr (str ''c1'')),
         messages = [userMessage (Some (JStr (str ''hello''))), assistantMessage]\<rparr>,
       isLoading = False, abortControllerRef = None,
       effects = [LoadConversations, ShowToast ToastCompleted]\<rparr>"
proof -
  have h: "Some (JStr (str ''foo_bar'')) \<notin> set (map (\<lambda>s. Some (JStr (str s))) event_labels)"
    by (simp add: event_labels_def str_def)
  have x: "example_turn = \<lparr>currentConversationId = Some (str ''c1''),
       currentConversation = Some \<lparr>conversation_id = Some (JStr (str ''c1'')),
         messages = [userMessage (Some (JStr (str ''hello''))), assistantMessage]\<rparr>,
       isLoading = True, abortControllerRef = Some AbortController, effects = []\<rparr>"
    by (simp add: example_turn_def example_conversation_def)
  have r: "onEvent (Some (JStr (str ''foo_bar''))) (JObj [(str ''type'', JStr (str ''foo_bar''))])
       example_turn =
     Inr (example_turn\<lparr>effects := effects example_turn @
            [ConsoleLogUnknown (Some (JStr (str ''foo_bar'')))]\<rparr>)
   \<and> pump [OnEvent (Some (JStr (str ''foo_bar''))) (JObj [(str ''type'', JStr (str ''foo_bar''))]),
           OnEvent (Some (JStr (str ''complete''))) (JObj [(str ''type'', JStr (str ''complete''))])]
       example_turn =
     Inr (example_turn\<lparr>isLoading := False, abortControllerRef := None,
            effects := effects example_turn @ [ConsoleLogUnknown (Some (JStr (str ''foo_bar''))),
              LoadConversations, ShowToast ToastCompleted]\<rparr>)
   \<and> pump [OnEvent (Some (JStr (str ''complete''))) (JObj [(str ''type'', JStr (str ''complete''))])]
       example_turn =
     Inr (example_turn\<lparr>isLoading := False, abortControllerRef := None,
            effects := effects example_turn @ [LoadConversations, ShowToast ToastCompleted]\<rparr>)"
    by (rule unknown_event_only_logged [OF h])
  have e: "example_turn\<lparr>effects := effects example_turn @ es\<rparr> =
      \<lparr>currentConversationId = Some (str ''c1''),
       currentConversation = Some \<lparr>conversation_id = Some (JStr (str ''c1'')),
         messages = [userMessage (Some (JStr (str ''hello''))), assistantMessage]\<rparr>,
       isLoading = True, abortControllerRef = Some AbortController, effects = es\<rparr>"
    "example_turn\<lparr>isLoading := False, abortControllerRef := None,
        effects := effects example_turn @ es\<rparr> =
      \<lparr>currentConversationId = Some (str ''c1''),
       currentConversation = Some \<lparr>conversation_id = Some (JStr (str ''c1'')),
         messages = [userMessage (Some (JStr (str ''hello''))), assistantMessage]\<rparr>,
       isLoading = False, abortControllerRef = None, effects = es\<rparr>" for es
    by (simp_all add: x)
  from r have "onEvent (Some (JStr (str ''foo_bar''))) (JObj [(str ''type'', JStr (str ''foo_bar''))])
       example_turn =
     Inr \<lparr>currentConversationId = Some (str ''c1''),
       currentConversation = Some \<lparr>conversation_id = Some (JStr (str ''c1'')),
         messages = [userMessage (Some (JStr (str ''hello''))), assistantMessage]\<rparr>,
       isLoading = True, abortControllerRef = Some AbortController,
       effects = [ConsoleLogUnknown (Some (JStr (str ''foo_bar'')))]\<rparr>
   \<and> pump [OnEvent (Some (JStr (str ''foo_bar''))) (JObj [(str ''type'', JStr (str ''foo_bar''))]),
           OnEvent (Some (JStr (str ''complete''))) (JObj [(str ''type'', JStr (str ''complete''))])]
       example_turn =
     Inr \<lparr>currentConversationId = Some (str ''c1''),
       currentConversation = Some \<lparr>conversation_id = Some (JStr (str ''c1'')),
         messages = [userMessage (Some (JStr (str ''hello''))), assistantMessage]\<rparr>,
       isLoading = False, abortControllerRef = None,
       effects = [ConsoleLogUnknown (Some (JStr (str ''foo_bar''))), LoadConversations,
         ShowToast ToastCompleted]\<rparr>
   \<and> pump [OnEvent (Some (JStr (str ''complete''))) (JObj [(str ''type'', JStr (str ''complete''))])]
       example_turn =
     Inr \<lparr>currentConversationId = Some (str ''c1''),
       currentConversation = Some \<lparr>conversation_id = Some (JStr (str ''c1'')),
         messages = [userMessage (Some (JStr (str ''hello''))), assistantMessage]\<rparr>,
       isLoading = False, abortControllerRef = None,
       effects = [LoadConversations, ShowToast ToastCompleted]\<rparr>"
    unfolding e .
  with h show ?thesis by (rule conjI)
qed

text \<open>
  C3 fails on the code: the \<^verbatim>\<open>cancelled\<close> case clears \<^verbatim>\<open>loading.stage1\<close>,
  \<^verbatim>\<open>loading.stage2\<close> and \<^verbatim>\<open>loading.stage3\<close> and leaves \<^verbatim>\<open>loading.simple\<close> as it is, where
  the \<^verbatim>\<open>aborted\<close> case beside it clears all four. After \<^verbatim>\<open>simple_mode_start\<close> and
  \<^verbatim>\<open>cancelled\<close> the turn is finalized and \<^verbatim>\<open>loading.simple\<close> is still true.
\<close>

theorem cancelled_keeps_simple_flag:
  "pump [OnEvent (Some (JStr (str ''simple_mode_start'')))
           (JObj [(str ''type'', JStr (str ''simple_mode_start''))]),
         OnEvent (Some (JStr (str ''cancelled''))) (JObj [(str ''type'', JStr (str ''cancelled''))])]
     example_turn =
   Inr ((example_conversation [userMessage (Some (JStr (str ''hello''))),
            assistantMessage\<lparr>loading := Some \<lparr>loading_stage1 = False, loading_stage2 = False,
              loading_stage3 = False, loading_simple = True, loading_stage1Models = None\<rparr>\<rparr>])
        \<lparr>isLoading := False, abortControllerRef := None,
          effects := [ShowToast ToastSimpleMode]\<rparr>)"
  by (simp add: onEvent_def switch_case_labels set_lastMsg simple_mode_start_def cancelled_def
        set_loading_def example_turn_def example_conversation_def assistantMessage_def
        perform_def finalize_def)

text \<open>
  The other half of C3 holds: once the flags are cleared and the turn is finalized (as
  after a local abort: \<^verbatim>\<open>aborted\<close> has cleared the flags, \<^verbatim>\<open>handleStopGeneration\<close> has set
  \<^verbatim>\<open>isLoading\<close> to false and dropped the abort controller), \<^verbatim>\<open>cancelled\<close> changes nothing.
\<close>

theorem cancelled_after_abort_changes_nothing:
  assumes "currentConversation a = Some c" and "messages c = ms @ [m]"
    and "loading m = Some l"
    and "\<not> loading_stage1 l" and "\<not> loading_stage2 l" and "\<not> loading_stage3 l"
    and "\<not> isLoading a" and "abortControllerRef a = None"
  shows "onEvent (Some (JStr (str ''cancelled''))) e a = Inr a"
proof -
  have step: "onEvent (Some (JStr (str ''cancelled''))) e a =
      Inr (finalize (a\<lparr>currentConversation := Some (c\<lparr>messages := ms @
        [m\<lparr>loading := Some (l\<lparr>loading_stage1 := False, loading_stage2 := False,
           loading_stage3 := False\<rparr>)\<rparr>]\<rparr>)\<rparr>))"
    using assms(1,2,3)
    by (simp add: onEvent_def switch_case_labels set_lastMsg cancelled_def set_loading_def)
  have "l\<lparr>loading_stage1 := False, loading_stage2 := False, loading_stage3 := False\<rparr> = l"
    using assms(4,5,6) by simp
  then have e1: "m\<lparr>loading := Some (l\<lparr>loading_stage1 := False, loading_stage2 := False,
      loading_stage3 := False\<rparr>)\<rparr> = m"
    using assms(3) by simp
  have e2: "c\<lparr>messages := ms @ [m]\<rparr> = c"
    using assms(2) by simp
  have e3: "finalize (a\<lparr>currentConversation := Some c\<rparr>) = a"
    using assms(1,7,8) by (simp add: finalize_def)
  show ?thesis
    unfolding step e1 e2 e3 by (rule refl)
qed

theorem cancelled_after_abort_changes_nothing_witness:
  "onEvent (Some (JStr (str ''cancelled''))) (JObj [])
     (handleStopGeneration example_turn) = Inr (handleStopGeneration example_turn)"
proof -
  have h1: "currentConversation (handleStopGeneration example_turn) =
     Some \<lparr>conversation_id = Some (JStr (str ''c1'')),
       messages = [userMessage (Some (JStr (str ''hello''))), assistantMessage]\<rparr>"
    by (simp add: handleStopGeneration_def example_turn_def example_conversation_def perform_def)
  have h2: "messages \<lparr>conversation_id = Some (JStr (str ''c1'')),
       messages = [userMessage (Some (JStr (str ''hello''))), assistantMessage]\<rparr> =
     [userMessage (Some (JStr (str ''hello'')))] @ [assistantMessage]"
    by simp
  have h3: "loading assistantMessage = Some \<lparr>loading_stage1 = False, loading_stage2 = False,
       loading_stage3 = False, loading_simple = False, loading_stage1Models = None\<rparr>"
    by (simp add: assistantMessage_def)
  have h7: "\<not> isLoading (handleStopGeneration example_turn)"
    "abortControllerRef (handleStopGeneration example_turn) = None"
    by (simp_all add: handleStopGeneration_def example_turn_def example_conversation_def
          perform_def)
  show ?thesis
    by (rule cancelled_after_abort_changes_nothing [OF h1 h2 h3 _ _ _ h7]) simp_all
qed

section \<open>Staged and simple turns\<close>

lemma onEvent_run:
  assumes "assignments (switch_case t) e m = Inr m1"
    and "currentConversation a = Some c" and "messages c = ms @ [m]"
  shows "\<exists>a1. onEvent t e a = Inr a1 \<and>
           currentConversation a1 = Some (c\<lparr>messages := ms @ [m1]\<rparr>)"
proof (cases "updates_message (switch_case t)")
  case True
  have "onEvent t e a = Inr (after_update (switch_case t)
          (a\<lparr>currentConversation := Some (c\<lparr>messages := ms @ [m1]\<rparr>)\<rparr>))"
    unfolding onEvent_updater [OF True] using assms by blast
  then show ?thesis
    by (simp add: after_update_def perform_def finalize_def)
next
  case False
  then have "assignments (switch_case t) e m = Inr m"
    by (cases "switch_case t") (simp_all add: updates_message_def assignments_def)
  with assms(1) have "m1 = m" by simp
  then have "c\<lparr>messages := ms @ [m1]\<rparr> = c"
    using assms(3) by simp
  with onEvent_other [OF False, of e a] assms(2) show ?thesis by auto
qed

lemma phase_assign:
  assumes "msg_phase n m"
    and "(k = Stage1Start \<and> n = 0) \<or> (k = Stage1Complete \<and> n = 1 \<and> has_data e) \<or>
         (k = Stage2Start \<and> n = 2) \<or> (k = Stage2Complete \<and> n = 3 \<and> has_data e) \<or>
         (k = Stage3Start \<and> n = 4) \<or> (k = Stage3Complete \<and> n = 5 \<and> has_data e)"
  shows "\<exists>m1. assignments k e m = Inr m1 \<and> msg_phase (Suc n) m1"
  using assms
  by (auto simp: assignments_def assignment_defs msg_phase_def has_data_def)

lemma stage_step:
  assumes "stage_order n (OnEvent t e # cbs)" and "msg_phase n m"
    and "currentConversation a = Some c" and "messages c = ms @ [m]"
  shows "\<exists>a1 m1 n1. onEvent t e a = Inr a1 \<and>
           currentConversation a1 = Some (c\<lparr>messages := ms @ [m1]\<rparr>) \<and>
           msg_phase n1 m1 \<and> stage_order n1 cbs \<and>
           (switch_case t = Stage3Complete \<or> switch_case t = Complete \<longrightarrow> n1 = 6)"
proof -
  consider
    (stage) "stage_order (Suc n) cbs"
      "(switch_case t = Stage1Start \<and> n = 0) \<or>
       (switch_case t = Stage1Complete \<and> n = 1 \<and> has_data e) \<or>
       (switch_case t = Stage2Start \<and> n = 2) \<or>
       (switch_case t = Stage2Complete \<and> n = 3 \<and> has_data e) \<or>
       (switch_case t = Stage3Start \<and> n = 4) \<or>
       (switch_case t = Stage3Complete \<and> n = 5 \<and> has_data e)"
  | (title) "switch_case t = TitleComplete" "stage_order n cbs"
  | (complete) "switch_case t = Complete" "n = 6" "cbs = []"
    using assms(1) by (cases "switch_case t") (simp_all add: numeral_eq_Suc)
  then show ?thesis
  proof cases
    case stage
    from phase_assign [OF assms(2) stage(2)] obtain m1 where
      m1: "assignments (switch_case t) e m = Inr m1" "msg_phase (Suc n) m1"
      by blast
    from onEvent_run [OF m1(1) assms(3,4)] obtain a1 where
      "onEvent t e a = Inr a1" "currentConversation a1 = Some (c\<lparr>messages := ms @ [m1]\<rparr>)"
      by blast
    moreover have "switch_case t = Stage3Complete \<or> switch_case t = Complete \<longrightarrow> Suc n = 6"
      using stage(2) by auto
    ultimately show ?thesis
      using m1(2) stage(1) by blast
  next
    case title
    then have "assignments (switch_case t) e m = Inr m"
      by (simp add: assignments_def)
    from onEvent_run [OF this assms(3,4)] title assms(2) show ?thesis
      by auto
  next
    case complete
    then have "assignments (switch_case t) e m = Inr m"
      by (simp add: assignments_def)
    from onEvent_run [OF this assms(3,4)] complete assms(2) show ?thesis
      by auto
  qed
qed

lemma ends_turn_Cons: "cbs \<noteq> [] \<Longrightarrow> ends_turn (cb # cbs) = ends_turn cbs"
  by (cases cbs; cases cb) simp_all

lemma stage_order_run:
  assumes "stage_order n cbs" and "msg_phase n m"
    and "currentConversation a = Some c" and "messages c = ms @ [m]"
  shows "\<exists>a' m' n'. pump cbs a = Inr a' \<and>
           currentConversation a' = Some (c\<lparr>messages := ms @ [m']\<rparr>) \<and>
           msg_phase n' m' \<and> (cbs = [] \<longrightarrow> n' = n) \<and> (ends_turn cbs \<longrightarrow> n' = 6)"
  using assms
proof (induction cbs arbitrary: n m a c)
  case Nil
  then have "c\<lparr>messages := ms @ [m]\<rparr> = c" by simp
  with Nil have "pump [] a = Inr a \<and>
           currentConversation a = Some (c\<lparr>messages := ms @ [m]\<rparr>) \<and>
           msg_phase n m \<and> ([] = ([] :: callback list) \<longrightarrow> n = n) \<and> (ends_turn [] \<longrightarrow> n = 6)"
    by simp
  then show ?case by blast
next
  case (Cons cb cbs)
  show ?case
  proof (cases cb)
    case ParseFailed
    with Cons.prems(1) show ?thesis by simp
  next
    case (OnEvent t e)
    from stage_step [OF Cons.prems(1) [unfolded OnEvent] Cons.prems(2,3,4)]
    obtain a1 m1 n1 where s: "onEvent t e a = Inr a1"
      "currentConversation a1 = Some (c\<lparr>messages := ms @ [m1]\<rparr>)"
      "msg_phase n1 m1" "stage_order n1 cbs"
      "switch_case t = Stage3Complete \<or> switch_case t = Complete \<longrightarrow> n1 = 6"
      by blast
    have "messages (c\<lparr>messages := ms @ [m1]\<rparr>) = ms @ [m1]" by simp
    from Cons.IH [OF s(4,3,2) this]
    obtain a' m' n' where r: "pump cbs a1 = Inr a'"
      "currentConversation a' = Some (c\<lparr>messages := ms @ [m']\<rparr>)"
      "msg_phase n' m'" "cbs = [] \<longrightarrow> n' = n1" "ends_turn cbs \<longrightarrow> n' = 6"
      by auto
    have "ends_turn (cb # cbs) \<longrightarrow> n' = 6"
    proof (cases "cbs = []")
      case True
      with r(4) s(5) OnEvent show ?thesis by auto
    next
      case False
      with r(5) show ?thesis by (simp add: ends_turn_Cons)
    qed
    with s(1) r(1,2,3) OnEvent show ?thesis by auto
  qed
qed

lemma msg_phase_fresh: "msg_phase 0 assistantMessage"
  by (simp add: msg_phase_def assistantMessage_def)

lemma example_events:
  "example_stage_events =
     [OnEvent (Some (JStr (str ''stage1_start'')))
        (JObj [(str ''type'', JStr (str ''stage1_start'')), (str ''models'', JArr [JStr (str ''m1'')])]),
      OnEvent (Some (JStr (str ''stage1_complete'')))
        (JObj [(str ''type'', JStr (str ''stage1_complete'')), (str ''data'', JArr [JStr (str ''r1'')])]),
      OnEvent (Some (JStr (str ''stage2_start''))) (JObj [(str ''type'', JStr (str ''stage2_start''))]),
      OnEvent (Some (JStr (str ''stage2_complete'')))
        (JObj [(str ''type'', JStr (str ''stage2_complete'')), (str ''data'', JArr [JStr (str ''k1'')]),
           (str ''metadata'', JObj [])]),
      OnEvent (Some (JStr (str ''stage3_start''))) (JObj [(str ''type'', JStr (str ''stage3_start''))]),
      OnEvent (Some (JStr (str ''stage3_complete'')))
        (JObj [(str ''type'', JStr (str ''stage3_complete'')), (str ''data'', JStr (str ''final''))])]"
  "example_staged_turn = example_stage_events @
     [OnEvent (Some (JStr (str ''title_complete''))) (JObj [(str ''type'', JStr (str ''title_complete''))]),
      OnEvent (Some (JStr (str ''complete''))) (JObj [(str ''type'', JStr (str ''complete''))])]"
  by (simp_all add: example_stage_events_def example_staged_turn_def stream_event_def)

lemma example_fields:
  "js_get (JObj [(str ''type'', t), (str ''data'', d)]) (str ''data'') = Some d"
  "js_get (JObj [(str ''type'', t), (str ''data'', d), (str ''metadata'', md)]) (str ''data'') = Some d"
  "js_get (JObj [(str ''type'', t), (str ''data'', d), (str ''metadata'', md)]) (str ''metadata'') = Some md"
  "js_get (JObj [(str ''type'', t), (str ''models'', ml)]) (str ''models'') = Some ml"
  "js_get (JObj [(str ''type'', t)]) (str ''data'') = None"
  "js_get (JObj [(str ''type'', t)]) (str ''models'') = None"
  by (simp_all add: str_def)

lemma example_id: "currentConversationId a = Some (str ''c1'') \<Longrightarrow> \<not> no_conversation_id a"
  by (simp add: no_conversation_id_def str_def)

text \<open>
  C4: a sequence in the documented stage order (\<open>stage_order 0\<close>) that ends in
  \<^verbatim>\<open>stage3_complete\<close> or \<^verbatim>\<open>complete\<close>, applied to a conversation whose last message is the
  fresh pending assistant message, runs through without an error and leaves in that
  place a message with \<^verbatim>\<open>stage1\<close>, \<^verbatim>\<open>stage2\<close> and \<^verbatim>\<open>stage3\<close> set and not \<^verbatim>\<open>null\<close>, no simple
  response, and the four loading flags false; the messages before it are untouched.
\<close>

theorem staged_sequence_fills_all_stages:
  assumes "stage_order 0 cbs" and "ends_turn cbs"
    and "currentConversation a = Some c" and "messages c = ms @ [assistantMessage]"
  shows "\<exists>a' m l. pump cbs a = Inr a' \<and>
           currentConversation a' = Some (c\<lparr>messages := ms @ [m]\<rparr>) \<and>
           stage1 m \<noteq> None \<and> stage1 m \<noteq> Some JNull \<and>
           stage2 m \<noteq> None \<and> stage2 m \<noteq> Some JNull \<and>
           stage3 m \<noteq> None \<and> stage3 m \<noteq> Some JNull \<and>
           simpleResponse m = Some JNull \<and>
           loading m = Some l \<and> \<not> loading_stage1 l \<and> \<not> loading_stage2 l \<and>
           \<not> loading_stage3 l \<and> \<not> loading_simple l"
proof -
  from stage_order_run [OF assms(1) msg_phase_fresh assms(3,4)] assms(2)
  obtain a' m' where "pump cbs a = Inr a'"
    "currentConversation a' = Some (c\<lparr>messages := ms @ [m']\<rparr>)" "msg_phase 6 m'"
    by auto
  then show ?thesis
    by (auto simp: msg_phase_def)
qed

theorem staged_sequence_fills_all_stages_witness:
  "stage_order 0 example_staged_turn \<and> ends_turn example_staged_turn \<and>
   currentConversation example_turn =
     Some \<lparr>conversation_id = Some (JStr (str ''c1'')),
       messages = [userMessage (Some (JStr (str ''hello''))), assistantMessage]\<rparr> \<and>
   (\<exists>a' m l. pump example_staged_turn example_turn = Inr a' \<and>
      currentConversation a' =
        Some (\<lparr>conversation_id = Some (JStr (str ''c1'')),
           messages = [userMessage (Some (JStr (str ''hello''))), assistantMessage]\<rparr>
          \<lparr>messages := [userMessage (Some (JStr (str ''hello'')))] @ [m]\<rparr>) \<and>
      stage1 m \<noteq> None \<and> stage1 m \<noteq> Some JNull \<and>
      stage2 m \<noteq> None \<and> stage2 m \<noteq> Some JNull \<and>
      stage3 m \<noteq> None \<and> stage3 m \<noteq> Some JNull \<and>
      simpleResponse m = Some JNull \<and>
      loading m = Some l \<and> \<not> loading_stage1 l \<and> \<not> loading_stage2 l \<and>
      \<not> loading_stage3 l \<and> \<not> loading_simple l)"
proof -
  have h1: "stage_order 0 example_staged_turn"
    by (simp add: example_events switch_case_labels has_data_def example_fields)
  have h2: "ends_turn example_staged_turn"
    by (simp add: example_events switch_case_labels)
  have h3: "currentConversation example_turn =
     Some \<lparr>conversation_id = Some (JStr (str ''c1'')),
       messages = [userMessage (Some (JStr (str ''hello''))), assistantMessage]\<rparr>"
    by (simp add: example_turn_def example_conversation_def)
  have h4: "messages \<lparr>conversation_id = Some (JStr (str ''c1'')),
       messages = [userMessage (Some (JStr (str ''hello''))), assistantMessage]\<rparr> =
     [userMessage (Some (JStr (str ''hello'')))] @ [assistantMessage]"
    by simp
  show ?thesis
    by (rule conjI [OF h1 conjI [OF h2 conjI [OF h3
          staged_sequence_fills_all_stages [OF h1 h2 h3 h4]]]])
qed

lemma pump_loading:
  assumes "currentConversation a = Some c" and "messages c = ms @ [m]" and "loading m \<noteq> None"
  shows "\<exists>a' m'. pump cbs a = Inr a' \<and>
           currentConversation a' = Some (c\<lparr>messages := ms @ [m']\<rparr>) \<and> loading m' \<noteq> None \<and>
           (no_simple_complete cbs \<longrightarrow> simpleResponse m' = simpleResponse m)"
  using assms
proof (induction cbs arbitrary: a c m)
  case Nil
  then have "c\<lparr>messages := ms @ [m]\<rparr> = c" by simp
  with Nil have "pump [] a = Inr a \<and>
           currentConversation a = Some (c\<lparr>messages := ms @ [m]\<rparr>) \<and> loading m \<noteq> None \<and>
           (no_simple_complete [] \<longrightarrow> simpleResponse m = simpleResponse m)"
    by simp
  then show ?case by blast
next
  case (Cons cb cbs)
  show ?case
  proof (cases cb)
    case ParseFailed
    have "currentConversation (perform [ConsoleErrorParse] a) = Some c"
      using Cons.prems(1) by (simp add: perform_def)
    from Cons.IH [OF this Cons.prems(2,3)] ParseFailed show ?thesis
      by simp
  next
    case (OnEvent t e)
    from assignments_loading [OF Cons.prems(3), of "switch_case t" e] obtain m1 where
      m1: "assignments (switch_case t) e m = Inr m1" "loading m1 \<noteq> None"
      by blast
    from onEvent_run [OF m1(1) Cons.prems(1,2)] obtain a1 where
      a1: "onEvent t e a = Inr a1" "currentConversation a1 = Some (c\<lparr>messages := ms @ [m1]\<rparr>)"
      by blast
    have "messages (c\<lparr>messages := ms @ [m1]\<rparr>) = ms @ [m1]" by simp
    from Cons.IH [OF a1(2) this m1(2)] obtain a' m' where
      r: "pump cbs a1 = Inr a'" "currentConversation a' = Some (c\<lparr>messages := ms @ [m']\<rparr>)"
        "loading m' \<noteq> None" "no_simple_complete cbs \<longrightarrow> simpleResponse m' = simpleResponse m1"
      by auto
    have "no_simple_complete (cb # cbs) \<longrightarrow> simpleResponse m' = simpleResponse m"
      using r(4) assignments_simpleResponse [OF m1(1)] OnEvent by auto
    with a1(1) r(1,2,3) OnEvent show ?thesis by auto
  qed
qed

text \<open>
  C5, as the specification states it, fails: after \<^verbatim>\<open>simple_mode_start\<close> and
  \<^verbatim>\<open>simple_mode_complete\<close> the stage events of a staged turn are applied like any others,
  and the message then holds the simple response together with \<^verbatim>\<open>stage1\<close>, \<^verbatim>\<open>stage2\<close>,
  \<^verbatim>\<open>stage3\<close> and \<^verbatim>\<open>metadata\<close>.
\<close>

theorem simple_and_staged_data_together:
  "pump (OnEvent (Some (JStr (str ''simple_mode_start'')))
           (JObj [(str ''type'', JStr (str ''simple_mode_start''))]) #
         OnEvent (Some (JStr (str ''simple_mode_complete'')))
           (JObj [(str ''type'', JStr (str ''simple_mode_complete'')),
              (str ''data'', JStr (str ''hi''))]) #
         example_stage_events) example_turn =
   Inr ((example_conversation [userMessage (Some (JStr (str ''hello''))),
          assistantMessage\<lparr>stage1 := Some (JArr [JStr (str ''r1'')]),
            stage2 := Some (JArr [JStr (str ''k1'')]),
            stage3 := Some (JStr (str ''final'')),
            simpleResponse := Some (JStr (str ''hi'')),
            metadata := Some (JObj []),
            loading := Some \<lparr>loading_stage1 = False, loading_stage2 = False,
              loading_stage3 = False, loading_simple = False,
              loading_stage1Models = Some (JArr [JStr (str ''m1'')])\<rparr>\<rparr>])
        \<lparr>effects := [ShowToast ToastSimpleMode]\<rparr>)"
  by (simp add: example_events onEvent_def switch_case_labels set_lastMsg
        assignment_defs example_fields example_turn_def example_conversation_def
        assistantMessage_def perform_def del: js_get.simps)

text \<open>
  C5, amended: \<^verbatim>\<open>simple_mode_complete\<close> stores its \<^verbatim>\<open>data\<close> as the simple response of the
  last message, and whatever events follow, short of another \<^verbatim>\<open>simple_mode_complete\<close>,
  run through without an error and leave that simple response as it is. (The stage
  events among them still store their data in the same message: nothing makes the
  simple and the staged shape exclusive.)
\<close>

theorem simple_response_kept:
  assumes "onEvent (Some (JStr (str ''simple_mode_complete''))) e a = Inr a1"
    and "no_simple_complete cbs"
  shows "\<exists>a' c ms m. pump cbs a1 = Inr a' \<and> currentConversation a' = Some c \<and>
           messages c = ms @ [m] \<and> simpleResponse m = js_get e (str ''data'')"
proof -
  have u: "updates_message (switch_case (Some (JStr (str ''simple_mode_complete''))))"
    by (simp add: switch_case_labels updates_message_def)
  from assms(1) obtain c ms m m1 where
    s: "currentConversation a = Some c" "messages c = ms @ [m]"
      "simple_mode_complete e m = Inr m1"
      "a1 = a\<lparr>currentConversation := Some (c\<lparr>messages := ms @ [m1]\<rparr>)\<rparr>"
    unfolding onEvent_updater [OF u]
    by (auto simp: switch_case_labels assignments_def after_update_def)
  from s(3) have m1: "loading m1 \<noteq> None" "simpleResponse m1 = js_get e (str ''data'')"
    by (auto simp: simple_mode_complete_def set_loading_def split: option.splits)
  have "currentConversation a1 = Some (c\<lparr>messages := ms @ [m1]\<rparr>)"
    "messages (c\<lparr>messages := ms @ [m1]\<rparr>) = ms @ [m1]"
    using s(4) by simp_all
  from pump_loading [OF this m1(1), of cbs] assms(2) m1(2) show ?thesis
    by (metis conversation.select_convs(2) conversation.surjective conversation.update_convs(2))
qed

theorem simple_response_kept_witness:
  "onEvent (Some (JStr (str ''simple_mode_complete'')))
     (JObj [(str ''type'', JStr (str ''simple_mode_complete'')), (str ''data'', JStr (str ''hi''))])
     example_turn =
   Inr (example_conversation [userMessage (Some (JStr (str ''hello''))),
          assistantMessage\<lparr>simpleResponse := Some (JStr (str ''hi''))\<rparr>]) \<and>
   no_simple_complete example_stage_events \<and>
   (\<exists>a' c ms m.
      pump example_stage_events
        (example_conversation [userMessage (Some (JStr (str ''hello''))),
           assistantMessage\<lparr>simpleResponse := Some (JStr (str ''hi''))\<rparr>]) = Inr a' \<and>
      currentConversation a' = Some c \<and> messages c = ms @ [m] \<and>
      simpleResponse m =
        js_get (JObj [(str ''type'', JStr (str ''simple_mode_complete'')),
                  (str ''data'', JStr (str ''hi''))]) (str ''data''))"
proof -
  have h1: "onEvent (Some (JStr (str ''simple_mode_complete'')))
     (JObj [(str ''type'', JStr (str ''simple_mode_complete'')), (str ''data'', JStr (str ''hi''))])
     example_turn =
   Inr (example_conversation [userMessage (Some (JStr (str ''hello''))),
          assistantMessage\<lparr>simpleResponse := Some (JStr (str ''hi''))\<rparr>])"
    by (simp add: onEvent_def switch_case_labels set_lastMsg assignment_defs example_fields
          example_turn_def example_conversation_def assistantMessage_def)
  have h2: "no_simple_complete example_stage_events"
    by (simp add: example_events switch_case_labels)
  show ?thesis
    by (rule conjI [OF h1 conjI [OF h2 simple_response_kept [OF h1 h2]]])
qed

section \<open>Failed sends and regeneration\<close>

lemma slice0_drop_two: "slice0 (ms @ [x, y]) (- 2) = ms"
  by (simp add: slice0_def)

text \<open>
  C6, as the specification states it, fails in its last part: the rollback is not kept
  to failures that come before any event. Here the stream delivers \<^verbatim>\<open>stage1_start\<close>,
  which is handed to the callback, and the next read fails with a \<^verbatim>\<open>TypeError\<close>; the
  \<^verbatim>\<open>catch\<close> of \<^verbatim>\<open>handleSendMessage\<close> removes the two messages all the same.
\<close>

theorem rollback_after_accepted_event:
  \<open>sendMessageStream
     (Response True [Chunk (str ''data: {"type":"stage1_start"}'' @ [10]), ReadError TypeError]) =
     ([OnEvent (Some (JStr (str ''stage1_start'')))
         (JObj [(str ''type'', JStr (str ''stage1_start''))])], Some TypeError) \<and>
   handleSendMessage (Some (JStr (str ''hello'')))
     (Response True [Chunk (str ''data: {"type":"stage1_start"}'' @ [10]), ReadError TypeError])
     (example_idle []) =
   Inr ((example_idle [])
          \<lparr>effects := [ConsoleErrorSend TypeError, ShowToast ToastSendFailed]\<rparr>)\<close>
proof -
  have d: \<open>sendMessageStream
     (Response True [Chunk (str ''data: {"type":"stage1_start"}'' @ [10]), ReadError TypeError]) =
     ([OnEvent (Some (JStr (str ''stage1_start'')))
         (JObj [(str ''type'', JStr (str ''stage1_start''))])], Some TypeError)\<close>
    by code_simp
  have n: "\<not> no_conversation_id (example_idle [])"
    by (simp add: no_conversation_id_def example_idle_def example_conversation_def str_def)
  have "js_get (JObj [(str ''type'', JStr (str ''stage1_start''))]) (str ''models'') = None"
    by (simp add: str_def)
  then have \<open>handleSendMessage (Some (JStr (str ''hello'')))
     (Response True [Chunk (str ''data: {"type":"stage1_start"}'' @ [10]), ReadError TypeError])
     (example_idle []) =
   Inr ((example_idle [])
          \<lparr>effects := [ConsoleErrorSend TypeError, ShowToast ToastSendFailed]\<rparr>)\<close>
    unfolding handleSendMessage_def d using n
    by (simp add: setCurrentConversation_def append_message_def onEvent_def switch_case_labels
          update_lastMsg_def stage1_start_def set_loading_def remove_optimistic_def slice0_def
          example_idle_def example_conversation_def assistantMessage_def perform_def
          finalize_def)
  with d show ?thesis by (rule conjI)
qed

text \<open>
  C6, amended: whenever \<^verbatim>\<open>sendMessageStream\<close> throws an error other than an
  \<^verbatim>\<open>AbortError\<close> (\<^verbatim>\<open>fetch\<close> fails, the response is not \<^verbatim>\<open>ok\<close>, or a read fails, before or
  after events were handed to the callback), \<^verbatim>\<open>handleSendMessage\<close> ends without a render
  error, the conversation is again the one that existed before the send (the user
  message and the placeholder appended by the send are removed, nothing else is), and
  the turn is finalized.
\<close>

theorem failed_send_rolls_back:
  assumes "\<not> no_conversation_id a" and "currentConversation a = Some c"
    and "sendMessageStream net = (cbs, Some err)" and "err \<noteq> AbortError"
  shows "\<exists>a'. handleSendMessage q net a = Inr a' \<and> currentConversation a' = Some c \<and>
           \<not> isLoading a' \<and> abortControllerRef a' = None"
proof -
  let ?c2 = "c\<lparr>messages := (messages c @ [userMessage q]) @ [assistantMessage]\<rparr>"
  let ?a2 = "a\<lparr>abortControllerRef := Some AbortController, isLoading := True,
               currentConversation := Some ?c2\<rparr>"
  have a2: "currentConversation ?a2 = Some ?c2"
    "messages ?c2 = (messages c @ [userMessage q]) @ [assistantMessage]"
    "loading assistantMessage \<noteq> None"
    by (simp_all add: assistantMessage_def)
  from pump_loading [OF a2, of cbs] obtain a3 m' where
    a3: "pump cbs ?a2 = Inr a3"
      "currentConversation a3 = Some (?c2\<lparr>messages := (messages c @ [userMessage q]) @ [m']\<rparr>)"
    by blast
  have "c\<lparr>messages := messages c\<rparr> = c" by simp
  with a3 assms show ?thesis
    by (simp add: handleSendMessage_def setCurrentConversation_def append_message_def
          remove_optimistic_def perform_def finalize_def slice0_drop_two)
qed

theorem failed_send_rolls_back_witness:
  "\<not> no_conversation_id (example_idle [userMessage (Some (JStr (str ''hello''))), example_answer]) \<and>
   currentConversation (example_idle [userMessage (Some (JStr (str ''hello''))), example_answer]) =
     Some \<lparr>conversation_id = Some (JStr (str ''c1'')),
       messages = [userMessage (Some (JStr (str ''hello''))), example_answer]\<rparr> \<and>
   sendMessageStream (Response False []) = ([], Some Error) \<and> Error \<noteq> AbortError \<and>
   (\<exists>a'. handleSendMessage (Some (JStr (str ''again''))) (Response False [])
            (example_idle [userMessage (Some (JStr (str ''hello''))), example_answer]) = Inr a' \<and>
      currentConversation a' =
        Some \<lparr>conversation_id = Some (JStr (str ''c1'')),
          messages = [userMessage (Some (JStr (str ''hello''))), example_answer]\<rparr> \<and>
      \<not> isLoading a' \<and> abortControllerRef a' = None)"
proof -
  have h1: "\<not> no_conversation_id
      (example_idle [userMessage (Some (JStr (str ''hello''))), example_answer])"
    by (simp add: no_conversation_id_def example_idle_def example_conversation_def str_def)
  have h2: "currentConversation
      (example_idle [userMessage (Some (JStr (str ''hello''))), example_answer]) =
     Some \<lparr>conversation_id = Some (JStr (str ''c1'')),
       messages = [userMessage (Some (JStr (str ''hello''))), example_answer]\<rparr>"
    by (simp add: example_idle_def example_conversation_def)
  have h3: "sendMessageStream (Response False []) = ([], Some Error)" by simp
  have h4: "Error \<noteq> AbortError" by simp
  show ?thesis
    by (rule conjI [OF h1 conjI [OF h2 conjI [OF h3 conjI [OF h4
          failed_send_rolls_back [OF h1 h2 h3 h4]]]]])
qed

text \<open>
  A request that is aborted before the response arrives (\<^verbatim>\<open>fetch\<close> throws the
  \<^verbatim>\<open>AbortError\<close>, outside the \<^verbatim>\<open>try\<close> of \<^verbatim>\<open>sendMessageStream\<close>) is not rolled back: the
  \<^verbatim>\<open>catch\<close> of \<^verbatim>\<open>handleSendMessage\<close> returns at once, the two appended messages stay, and
  \<^verbatim>\<open>isLoading\<close> and the abort controller are left as the send set them.
\<close>

theorem aborted_request_keeps_appended_messages:
  assumes "\<not> no_conversation_id a" and "currentConversation a = Some c"
  shows "handleSendMessage q (FetchError AbortError) a =
     Inr (a\<lparr>abortControllerRef := Some AbortController, isLoading := True,
            currentConversation :=
              Some (c\<lparr>messages := messages c @ [userMessage q, assistantMessage]\<rparr>)\<rparr>)"
  using assms
  by (simp add: handleSendMessage_def setCurrentConversation_def append_message_def)

theorem aborted_request_keeps_appended_messages_witness:
  "\<not> no_conversation_id (example_idle []) \<and>
   currentConversation (example_idle []) =
     Some \<lparr>conversation_id = Some (JStr (str ''c1'')), messages = []\<rparr> \<and>
   handleSendMessage (Some (JStr (str ''hello''))) (FetchError AbortError) (example_idle []) =
     Inr ((example_idle [])\<lparr>abortControllerRef := Some AbortController, isLoading := True,
            currentConversation :=
              Some (\<lparr>conversation_id = Some (JStr (str ''c1'')), messages = []\<rparr>
                \<lparr>messages := messages \<lparr>conversation_id = Some (JStr (str ''c1'')), messages = []\<rparr>
                   @ [userMessage (Some (JStr (str ''hello''))), assistantMessage]\<rparr>)\<rparr>)"
proof -
  have h1: "\<not> no_conversation_id (example_idle [])"
    by (simp add: example_id example_idle_def example_conversation_def)
  have h2: "currentConversation (example_idle []) =
     Some \<lparr>conversation_id = Some (JStr (str ''c1'')), messages = []\<rparr>"
    by (simp add: example_idle_def example_conversation_def)
  show ?thesis
    by (rule conjI [OF h1 conjI [OF h2 aborted_request_keeps_appended_messages [OF h1 h2]]])
qed

declare walk_back.simps [simp del]

lemma walk_back_found:
  assumes "0 \<le> k" and "role_at ms k = Some (JStr (str ''user''))"
    and "\<forall>j. k < j \<and> j \<le> i \<longrightarrow> role_at ms j \<noteq> Some (JStr (str ''user''))"
    and "k \<le> i"
  shows "walk_back ms i = k"
  using assms
proof (induction ms i rule: walk_back.induct)
  case (1 ms i)
  show ?case
  proof (cases "k = i")
    case True
    with "1.prems" show ?thesis
      by (simp add: walk_back.simps [of ms i])
  next
    case False
    with "1.prems" have "k < i" "role_at ms i \<noteq> Some (JStr (str ''user''))" "0 \<le> i"
      by auto
    moreover from this "1.prems" have "walk_back ms (i - 1) = k"
      by (intro "1.IH") auto
    ultimately show ?thesis
      by (simp add: walk_back.simps [of ms i])
  qed
qed

lemma walk_back_none:
  assumes "\<forall>j. 0 \<le> j \<and> j \<le> i \<longrightarrow> role_at ms j \<noteq> Some (JStr (str ''user''))"
  shows "walk_back ms i < 0"
  using assms
proof (induction ms i rule: walk_back.induct)
  case (1 ms i)
  show ?case
  proof (cases "0 \<le> i")
    case True
    with "1.prems" have "role_at ms i \<noteq> Some (JStr (str ''user''))" by auto
    moreover from this True "1.prems" have "walk_back ms (i - 1) < 0"
      by (intro "1.IH") auto
    ultimately show ?thesis
      using True by (simp add: walk_back.simps [of ms i])
  next
    case False
    then show ?thesis
      by (simp add: walk_back.simps [of ms i])
  qed
qed

text \<open>
  C2, as the specification states it, fails: the list is cut to the length
  \<^verbatim>\<open>messageIndex\<close>, not to the index \<open>k\<close> of the user message. Regenerating the answer
  at position 1 of a conversation of a question and its answer keeps the question (the
  list is cut to length 1, not 0) and the new turn appends the question once more. (The
  stream of the new turn ends here without an event.)
\<close>

theorem regenerate_keeps_user_message:
  "handleRegenerateMessage 1 (Response True [])
     (example_idle [userMessage (Some (JStr (str ''hello''))), example_answer]) =
   Inr ((example_conversation [userMessage (Some (JStr (str ''hello''))),
           userMessage (Some (JStr (str ''hello''))), assistantMessage])
        \<lparr>effects := [ShowToast ToastRegenerating]\<rparr>)"
proof -
  have w: "walk_back [userMessage (Some (JStr (str ''hello''))), example_answer] 0 = 0"
    by (simp add: walk_back.simps [of _ 0] role_at_def message_at_def userMessage_def)
  have c: "content (userMessage x) = x" for x
    by (simp add: userMessage_def)
  show ?thesis
    by (simp add: handleRegenerateMessage_def handleSendMessage_def example_id w c
          message_at_def setCurrentConversation_def append_message_def slice0_def
          example_idle_def example_conversation_def perform_def)
qed

text \<open>
  C2, amended: when the nearest user message before position \<open>i\<close> is at index \<open>k\<close>,
  regenerate cuts the message list to length \<open>i\<close> (the message at \<open>i\<close> and everything
  after it are dropped; the user message at \<open>k\<close> stays) and then sends a new turn with
  the content of that user message as it is, through \<^verbatim>\<open>handleSendMessage\<close>. When there is
  no user message before position \<open>i\<close>, it shows the error toast and changes nothing
  else: the message list is as it was and no turn is sent.
\<close>

theorem regenerate_truncates_at_turn:
  assumes "\<not> no_conversation_id a" and "currentConversation a = Some c"
  shows "(0 \<le> k \<and> k < i \<and> message_at (messages c) k = Some u \<and>
          role u = Some (JStr (str ''user'')) \<and>
          (\<forall>j. k < j \<and> j < i \<longrightarrow> role_at (messages c) j \<noteq> Some (JStr (str ''user'')))
          \<longrightarrow> handleRegenerateMessage i net a =
                handleSendMessage (content u) net
                  (perform [ShowToast ToastRegenerating]
                     (a\<lparr>currentConversation := Some (c\<lparr>messages := take (nat i) (messages c)\<rparr>)\<rparr>)))
       \<and> ((\<forall>j. 0 \<le> j \<and> j < i \<longrightarrow> role_at (messages c) j \<noteq> Some (JStr (str ''user'')))
          \<longrightarrow> handleRegenerateMessage i net a = Inr (perform [ShowToast ToastNoUserMessage] a))"
proof (intro conjI impI)
  assume h: "0 \<le> k \<and> k < i \<and> message_at (messages c) k = Some u \<and>
          role u = Some (JStr (str ''user'')) \<and>
          (\<forall>j. k < j \<and> j < i \<longrightarrow> role_at (messages c) j \<noteq> Some (JStr (str ''user'')))"
  then have "role_at (messages c) k = Some (JStr (str ''user''))"
    by (simp add: role_at_def)
  with h have "walk_back (messages c) (i - 1) = k"
    by (intro walk_back_found) auto
  with h assms show "handleRegenerateMessage i net a =
                handleSendMessage (content u) net
                  (perform [ShowToast ToastRegenerating]
                     (a\<lparr>currentConversation := Some (c\<lparr>messages := take (nat i) (messages c)\<rparr>)\<rparr>))"
    by (simp add: handleRegenerateMessage_def setCurrentConversation_def slice0_def)
next
  assume "\<forall>j. 0 \<le> j \<and> j < i \<longrightarrow> role_at (messages c) j \<noteq> Some (JStr (str ''user''))"
  then have "walk_back (messages c) (i - 1) < 0"
    by (intro walk_back_none) auto
  with assms show "handleRegenerateMessage i net a = Inr (perform [ShowToast ToastNoUserMessage] a)"
    by (simp add: handleRegenerateMessage_def)
qed

theorem regenerate_truncates_at_turn_witness:
  "\<not> no_conversation_id (example_idle [userMessage (Some (JStr (str ''hello''))), example_answer]) \<and>
   currentConversation (example_idle [userMessage (Some (JStr (str ''hello''))), example_answer]) =
     Some \<lparr>conversation_id = Some (JStr (str ''c1'')),
       messages = [userMessage (Some (JStr (str ''hello''))), example_answer]\<rparr> \<and>
   handleRegenerateMessage 1 (Response True [])
     (example_idle [userMessage (Some (JStr (str ''hello''))), example_answer]) =
   handleSendMessage (content (userMessage (Some (JStr (str ''hello''))))) (Response True [])
     (perform [ShowToast ToastRegenerating]
        ((example_idle [userMessage (Some (JStr (str ''hello''))), example_answer])
         \<lparr>currentConversation := Some (\<lparr>conversation_id = Some (JStr (str ''c1'')),
              messages = [userMessage (Some (JStr (str ''hello''))), example_answer]\<rparr>
            \<lparr>messages := take (nat 1)
               (messages \<lparr>conversation_id = Some (JStr (str ''c1'')),
                  messages = [userMessage (Some (JStr (str ''hello''))), example_answer]\<rparr>)\<rparr>)\<rparr>)) \<and>
   \<not> no_conversation_id (example_idle [example_answer, example_answer]) \<and>
   currentConversation (example_idle [example_answer, example_answer]) =
     Some \<lparr>conversation_id = Some (JStr (str ''c1'')),
       messages = [example_answer, example_answer]\<rparr> \<and>
   handleRegenerateMessage 1 (Response True []) (example_idle [example_answer, example_answer]) =
     Inr (perform [ShowToast ToastNoUserMessage] (example_idle [example_answer, example_answer]))"
proof -
  have h1: "\<not> no_conversation_id
      (example_idle [userMessage (Some (JStr (str ''hello''))), example_answer])"
    by (simp add: no_conversation_id_def example_idle_def example_conversation_def str_def)
  have h2: "currentConversation
      (example_idle [userMessage (Some (JStr (str ''hello''))), example_answer]) =
     Some \<lparr>conversation_id = Some (JStr (str ''c1'')),
       messages = [userMessage (Some (JStr (str ''hello''))), example_answer]\<rparr>"
    by (simp add: example_idle_def example_conversation_def)
  have p: "0 \<le> (0::int) \<and> (0::int) < 1 \<and>
      message_at (messages \<lparr>conversation_id = Some (JStr (str ''c1'')),
          messages = [userMessage (Some (JStr (str ''hello''))), example_answer]\<rparr>) 0 =
        Some (userMessage (Some (JStr (str ''hello'')))) \<and>
      role (userMessage (Some (JStr (str ''hello'')))) = Some (JStr (str ''user'')) \<and>
      (\<forall>j. 0 < j \<and> j < 1 \<longrightarrow>
         role_at (messages \<lparr>conversation_id = Some (JStr (str ''c1'')),
           messages = [userMessage (Some (JStr (str ''hello''))), example_answer]\<rparr>) j
         \<noteq> Some (JStr (str ''user'')))"
    by (auto simp: message_at_def userMessage_def)
  have g1: "\<not> no_conversation_id (example_idle [example_answer, example_answer])"
    by (simp add: no_conversation_id_def example_idle_def example_conversation_def str_def)
  have g2: "currentConversation (example_idle [example_answer, example_answer]) =
     Some \<lparr>conversation_id = Some (JStr (str ''c1'')),
       messages = [example_answer, example_answer]\<rparr>"
    by (simp add: example_idle_def example_conversation_def)
  have "role_at [example_answer, example_answer] j \<noteq> Some (JStr (str ''user''))"
    if "0 \<le> j \<and> j < 1" for j :: int
  proof -
    from that have "j = 0" by simp
    then show ?thesis
      by (simp add: role_at_def message_at_def example_answer_def assistantMessage_def str_def)
  qed
  then have q: "\<forall>j. 0 \<le> j \<and> j < (1::int) \<longrightarrow>
      role_at (messages \<lparr>conversation_id = Some (JStr (str ''c1'')),
        messages = [example_answer, example_answer]\<rparr>) j \<noteq> Some (JStr (str ''user''))"
    by simp
  note found = conjunct1 [OF regenerate_truncates_at_turn [OF h1 h2], THEN mp, OF p]
  note none = conjunct2 [OF regenerate_truncates_at_turn [OF g1 g2], THEN mp, OF q]
  show ?thesis
    by (rule conjI [OF h1 conjI [OF h2 conjI [OF found conjI [OF g1 conjI [OF g2 none]]]]])
qed

end
